(* ===== verification/Prelude.thy ===== *)
theory Prelude
  imports Main "HOL-Library.Word" "HOL-Library.List_Lexorder" "HOL-Library.Char_ord"
begin

text \<open>
  Types, library containers and automation shared by every component.

  \<^item> \<^verbatim>\<open>QByteArray\<close> is \<open>bytes\<close>, a list of 8-bit words; \<^verbatim>\<open>quint16\<close>, \<^verbatim>\<open>quint32\<close>,
    \<^verbatim>\<open>quint64\<close> are words of their width; a C++ \<^verbatim>\<open>int\<close> is an \<open>int\<close> whose sums go through
    \<open>wrap32\<close> wherever the code can leave the range (signed overflow is undefined in C++; the
    model takes the two's-complement result every supported compiler target produces).
  \<^item> \<^verbatim>\<open>QString\<close> is \<open>string\<close>: one \<open>char\<close> per UTF-16 code unit, code units below 256.
  \<^item> \<^verbatim>\<open>QMap\<close> is an association list kept sorted by key, because the code iterates maps in
    key order; \<open>qm_insert\<close>, \<open>qm_remove\<close> and \<open>map_of\<close> are its operations, and the locale
    \<open>keyed_store\<close> states the contract its clients use.
\<close>

unbundle bit_operations_syntax

subsection \<open>Names for the model's types\<close>

type_synonym byte = "8 word"
type_synonym bytes = "byte list"
type_synonym quint8 = "8 word"
type_synonym quint16 = "16 word"
type_synonym quint32 = "32 word"
type_synonym quint64 = "64 word"
type_synonym ('k, 'v) qmap = "('k \<times> 'v) list"

named_theorems result_simps \<open>inversion rules for option-valued operations\<close>

lemma bind_Some_iff [result_simps]:
  "Option.bind m f = Some y \<longleftrightarrow> (\<exists>x. m = Some x \<and> f x = Some y)"
  by (cases m) auto

lemma map_option_Some_iff [result_simps]:
  "map_option f m = Some y \<longleftrightarrow> (\<exists>x. m = Some x \<and> y = f x)"
  by (cases m) auto

subsection \<open>Two's-complement \<open>int\<close>\<close>

definition wrap32 :: "int \<Rightarrow> int" where
  "wrap32 i = (i + 2 ^ 31) mod 2 ^ 32 - 2 ^ 31"

lemma wrap32_id [simp]: "- (2 ^ 31) \<le> i \<Longrightarrow> i < 2 ^ 31 \<Longrightarrow> wrap32 i = i"
  by (simp add: wrap32_def)

lemma wrap32_range: "- (2 ^ 31) \<le> wrap32 i \<and> wrap32 i < 2 ^ 31"
  by (simp add: wrap32_def)

text \<open>\<^verbatim>\<open>static_cast<int>\<close> of a 64-bit unsigned value keeps the low 32 bits, read as signed.\<close>

definition int_of_u64 :: "quint64 \<Rightarrow> int" where
  "int_of_u64 w = sint (ucast w :: 32 word)"

lemma int_of_u64_small:
  assumes "uint w < 2 ^ 31"
  shows "int_of_u64 w = uint w"
proof -
  have "uint (ucast w :: 32 word) = uint w"
    using assms by (simp add: unsigned_ucast_eq take_bit_int_eq_self)
  then show ?thesis
    using assms uint_ge_0 [of w]
    by (simp add: int_of_u64_def sint_uint signed_take_bit_int_eq_self order_trans [of "- 2147483648" 0])
qed

subsection \<open>Bits of words\<close>

lemma bit_literals [simp]:
  "bit (0x80 :: int) n \<longleftrightarrow> n = 7" "bit (0x7F :: int) n \<longleftrightarrow> n < 7"
  "bit (0xFF :: int) n \<longleftrightarrow> n < 8" "bit (7 :: int) n \<longleftrightarrow> n < 3"
  using bit_exp_iff [of 7 n, where ?'a = int] bit_mask_iff [of 7 n, where ?'a = int]
    bit_mask_iff [of 8 n, where ?'a = int] bit_mask_iff [of 3 n, where ?'a = int]
  by (simp_all add: possible_bit_def mask_eq_exp_minus_1 del: mask_numeral)

lemma unat_less_take_bit: "unat v < 2 ^ n \<Longrightarrow> take_bit n v = (v :: 'a::len word)"
  by (simp add: word_unat_eq_iff unsigned_take_bit_eq take_bit_nat_eq_self)

lemma sint_word_of_int_small: "0 \<le> k \<Longrightarrow> k < 2 ^ 31 \<Longrightarrow> sint (word_of_int k :: 32 word) = k"
  by (simp add: sint_sbintrunc' signed_take_bit_int_eq_self order_trans [of "- 2147483648" 0])

lemma uint_word_of_int_small:
  "0 \<le> k \<Longrightarrow> k < 2 ^ LENGTH('a) \<Longrightarrow> uint (word_of_int k :: 'a::len word) = k"
  by (simp only: uint_word_of_int mod_pos_pos_trivial)

lemma uint_drop_bit: "uint (drop_bit n w) = uint w div 2 ^ n"
proof -
  have "uint (drop_bit n w) = drop_bit n (uint w)"
    by (simp only: unsigned_drop_bit_eq take_bit_int_eq_self uint_ge_0 uint_lt2p)
  then show ?thesis by (simp only: drop_bit_eq_div)
qed

subsection \<open>QByteArray::mid\<close>

text \<open>
  The documented result of \<^verbatim>\<open>mid(pos, len)\<close>: a negative length, or one that runs past the end,
  takes everything up to the end.
\<close>

definition qba_mid :: "bytes \<Rightarrow> int \<Rightarrow> int \<Rightarrow> bytes" where
  "qba_mid d pos len =
     (let n = int (length d) in
      if n < pos then []
      else if pos < 0 then
        (if len < 0 \<or> n \<le> len + pos then d
         else if len + pos \<le> 0 then [] else take (nat (len + pos)) d)
      else if len < 0 \<or> n - pos < len then drop (nat pos) d
      else take (nat len) (drop (nat pos) d))"

lemma qba_mid_take:
  assumes "0 \<le> pos" "0 \<le> len" "pos \<le> int (length d)"
  shows "qba_mid d pos len = take (nat len) (drop (nat pos) d)"
  using assms by (auto simp: qba_mid_def Let_def nat_le_iff)

lemma qba_mid_length: "length (qba_mid d pos len) \<le> length d"
  by (auto simp: qba_mid_def Let_def)

lemma qba_mid_length_le: "0 \<le> pos \<Longrightarrow> 0 \<le> len \<Longrightarrow> length (qba_mid d pos len) \<le> nat len"
  by (auto simp: qba_mid_def Let_def)

lemma qba_mid_append [simp]:
  "qba_mid (a @ b @ c) (int (length a)) (int (length b)) = b"
  by (simp add: qba_mid_take)

subsection \<open>QMap\<close>

definition qm_insert :: "'k::linorder \<Rightarrow> 'v \<Rightarrow> ('k, 'v) qmap \<Rightarrow> ('k, 'v) qmap" where
  "qm_insert k v m = [p \<leftarrow> m. fst p < k] @ (k, v) # [p \<leftarrow> m. k < fst p]"

definition qm_remove :: "'k \<Rightarrow> ('k, 'v) qmap \<Rightarrow> ('k, 'v) qmap" where
  "qm_remove k m = [p \<leftarrow> m. fst p \<noteq> k]"

definition qm_contains :: "('k, 'v) qmap \<Rightarrow> 'k \<Rightarrow> bool" where
  "qm_contains m k = (map_of m k \<noteq> None)"

definition qm_value :: "('k, 'v) qmap \<Rightarrow> 'k \<Rightarrow> 'v \<Rightarrow> 'v" where
  "qm_value m k dflt = (case map_of m k of None \<Rightarrow> dflt | Some v \<Rightarrow> v)"

definition qm_sorted :: "('k::linorder, 'v) qmap \<Rightarrow> bool" where
  "qm_sorted m = sorted_wrt (<) (map fst m)"

lemma map_of_filter_key:
  "map_of [p \<leftarrow> m. P (fst p)] a = (if P a then map_of m a else None)"
  by (induction m) auto

lemma map_of_qm_insert [simp]:
  "map_of (qm_insert k v m) a = (if a = k then Some v else map_of m a)"
  by (auto simp: qm_insert_def map_add_def map_of_filter_key[where P = "\<lambda>x. x < k"]
      map_of_filter_key[where P = "\<lambda>x. k < x"] split: option.splits)

lemma map_of_qm_remove [simp]:
  "map_of (qm_remove k m) a = (if a = k then None else map_of m a)"
  by (simp add: qm_remove_def map_of_filter_key[where P = "\<lambda>x. x \<noteq> k"])

lemma qm_sorted_Nil [simp]: "qm_sorted []"
  by (simp add: qm_sorted_def)

lemma sorted_wrt_map_filter:
  "sorted_wrt R (map f xs) \<Longrightarrow> sorted_wrt R (map f (filter P xs))"
  by (induction xs) auto

lemma qm_sorted_insert [simp]: "qm_sorted m \<Longrightarrow> qm_sorted (qm_insert k v m)"
  by (auto simp: qm_sorted_def qm_insert_def sorted_wrt_append sorted_wrt_map_filter)

lemma qm_sorted_remove [simp]: "qm_sorted m \<Longrightarrow> qm_sorted (qm_remove k m)"
  by (simp add: qm_sorted_def qm_remove_def sorted_wrt_map_filter)

lemma keys_qm_insert [simp]: "fst ` set (qm_insert k v m) = insert k (fst ` set m)"
  by (force simp: qm_insert_def)

lemma qm_sorted_distinct: "qm_sorted m \<Longrightarrow> distinct (map fst m)"
  by (simp add: qm_sorted_def strict_sorted_iff)

lemma qm_contains_iff: "qm_contains m k \<longleftrightarrow> k \<in> fst ` set m"
  by (simp add: qm_contains_def map_of_eq_None_iff)

lemma qm_contains_insert [simp]: "qm_contains (qm_insert k v m) a \<longleftrightarrow> a = k \<or> qm_contains m a"
  by (simp add: qm_contains_def)

lemma qm_contains_remove [simp]: "qm_contains (qm_remove k m) a \<longleftrightarrow> a \<noteq> k \<and> qm_contains m a"
  by (simp add: qm_contains_def)

lemma qm_contains_Nil [simp]: "\<not> qm_contains [] k"
  by (simp add: qm_contains_def)

lemma qm_value_insert [simp]:
  "qm_value (qm_insert k v m) a d = (if a = k then v else qm_value m a d)"
  by (simp add: qm_value_def)

lemma qm_value_remove [simp]:
  "qm_value (qm_remove k m) a d = (if a = k then d else qm_value m a d)"
  by (simp add: qm_value_def)

lemma qm_value_Nil [simp]: "qm_value [] a d = d"
  by (simp add: qm_value_def)

subsection \<open>The contract of a keyed store\<close>

text \<open>
  What the components rely on when they keep values under keys: a lookup sees the last value put
  under its key and nothing else. \<open>put_all\<close> is the loop \<^verbatim>\<open>for (it : m) store.insert(it.key(), it.value())\<close>.
\<close>

definition put_all :: "('k \<Rightarrow> 'v \<Rightarrow> 'm \<Rightarrow> 'm) \<Rightarrow> ('k \<times> 'v) list \<Rightarrow> 'm \<Rightarrow> 'm" where
  "put_all put kvs m = foldl (\<lambda>acc p. put (fst p) (snd p) acc) m kvs"

lemma put_all_Nil [simp]: "put_all put [] m = m"
  by (simp add: put_all_def)

lemma put_all_Cons [simp]: "put_all put ((k, v) # kvs) m = put_all put kvs (put k v m)"
  by (simp add: put_all_def)

lemma put_all_snoc: "put_all put (kvs @ [(k, v)]) m = put k v (put_all put kvs m)"
  by (simp add: put_all_def)

locale keyed_store =
  fixes put :: "'k \<Rightarrow> 'v \<Rightarrow> 'm \<Rightarrow> 'm"
    and get :: "'m \<Rightarrow> 'k \<Rightarrow> 'v option"
    and del :: "'k \<Rightarrow> 'm \<Rightarrow> 'm"
  assumes get_put: "get (put k v m) a = (if a = k then Some v else get m a)"
    and get_del: "get (del k m) a = (if a = k then None else get m a)"
begin

lemma get_put_all:
  "get (put_all put kvs m) a = (case map_of (rev kvs) a of None \<Rightarrow> get m a | Some v \<Rightarrow> Some v)"
  by (induction kvs rule: rev_induct) (auto simp: put_all_snoc get_put put_all_def)

lemma get_put_all_notin: "a \<notin> fst ` set kvs \<Longrightarrow> get (put_all put kvs m) a = get m a"
proof -
  assume "a \<notin> fst ` set kvs"
  then have "map_of (rev kvs) a = None"
    by (simp add: map_of_eq_None_iff)
  then show ?thesis by (simp add: get_put_all)
qed

lemma get_put_all_mono: "get m a \<noteq> None \<Longrightarrow> get (put_all put kvs m) a \<noteq> None"
  by (simp add: get_put_all split: option.splits)

end

interpretation qm: keyed_store qm_insert map_of qm_remove
  by unfold_locales auto

subsection \<open>Lists\<close>

text \<open>\<^verbatim>\<open>QString::indexOf\<close>/\<^verbatim>\<open>QStringList::indexOf\<close>: the first position, or -1.\<close>

fun index_of :: "'a \<Rightarrow> 'a list \<Rightarrow> int" where
  "index_of x [] = -1"
| "index_of x (y # ys) = (if x = y then 0 else let i = index_of x ys in if i < 0 then -1 else i + 1)"

lemma index_of_ge: "-1 \<le> index_of x xs"
  by (induction xs) (auto simp: Let_def)

lemma index_of_notin: "index_of x xs < 0 \<longleftrightarrow> x \<notin> set xs"
  by (induction xs) (auto simp: Let_def)

lemma index_of_nth: "0 \<le> index_of x xs \<Longrightarrow> nat (index_of x xs) < length xs \<and> xs ! nat (index_of x xs) = x"
proof (induction xs)
  case Nil
  then show ?case by simp
next
  case (Cons y ys)
  then show ?case by (auto simp: Let_def nat_add_distrib split: if_splits)
qed

lemma index_of_distinct: "distinct xs \<Longrightarrow> i < length xs \<Longrightarrow> index_of (xs ! i) xs = int i"
proof (induction xs arbitrary: i)
  case Nil
  then show ?case by simp
next
  case (Cons y ys)
  then show ?case by (cases i) (auto simp: Let_def)
qed

subsection \<open>Maps with the same content\<close>

lemma qm_eqI:
  assumes "qm_sorted m" "qm_sorted n" "set m = set n"
  shows "m = n"
proof -
  have "map fst m = map fst n"
    using assms strict_sorted_equal [of "map fst n" "map fst m"] by (simp add: qm_sorted_def)
  moreover have "inj_on fst (set m \<union> set n)"
    using qm_sorted_distinct [OF assms(1)] assms(3) by (simp add: distinct_map)
  ultimately show ?thesis
    by (simp add: inj_on_map_eq_map)
qed

lemma set_qm_insert: "set (qm_insert k v m) = insert (k, v) {p \<in> set m. fst p \<noteq> k}"
  by (auto simp: qm_insert_def)

lemma qm_sorted_put_all: "qm_sorted m \<Longrightarrow> qm_sorted (put_all qm_insert kvs m)"
  by (induction kvs arbitrary: m) auto

lemma set_put_all:
  "distinct (map fst kvs) \<Longrightarrow> fst ` set kvs \<inter> fst ` set m = {} \<Longrightarrow>
   set (put_all qm_insert kvs m) = set kvs \<union> set m"
proof (induction kvs arbitrary: m)
  case (Cons p kvs)
  obtain k v where p: "p = (k, v)" by (cases p)
  have "{q \<in> set m. fst q \<noteq> k} = set m"
    using Cons.prems p by auto
  then show ?case
    using Cons.prems Cons.IH [of "qm_insert k v m"] by (auto simp: p set_qm_insert)
qed simp

lemma put_all_map:
  "put_all (\<lambda>k v. qm_insert (f k) (g v)) kvs m = put_all qm_insert (map (\<lambda>p. (f (fst p), g (snd p))) kvs) m"
  by (induction kvs arbitrary: m) auto

lemma qm_insert_last: "\<forall>p \<in> set m. fst p < k \<Longrightarrow> qm_insert k v m = m @ [(k, v)]"
  by (induction m) (auto simp: qm_insert_def)

text \<open>
  A map written under other keys and read back: the loop that rebuilds it gives the same map when
  the keys can be recovered.
\<close>

lemma put_all_rekey:
  fixes m :: "('k::linorder, 'v) qmap" and f :: "'k \<Rightarrow> 'l::linorder"
  assumes "qm_sorted m" "\<And>p. p \<in> set m \<Longrightarrow> f' (f (fst p)) = fst p \<and> g' (g (snd p)) = snd p"
  shows "put_all (\<lambda>k v. qm_insert (f' k) (g' v)) (put_all (\<lambda>k v. qm_insert (f k) (g v)) m []) [] = m"
proof -
  let ?w = "\<lambda>p. (f (fst p), g (snd p))"
  let ?r = "\<lambda>p. (f' (fst p), g' (snd p))"
  let ?o = "put_all qm_insert (map ?w m) []"
  have "inj_on f (fst ` set m)"
    using assms(2) by (auto intro!: inj_onI) (metis fst_conv)
  then have d: "distinct (map fst (map ?w m))"
    using qm_sorted_distinct [OF assms(1)] by (simp add: distinct_map comp_def inj_on_def)
  then have o: "set ?o = ?w ` set m"
    by (simp add: set_put_all)
  have so: "qm_sorted ?o" by (simp add: qm_sorted_put_all)
  have r: "?r ` set ?o = set m"
    unfolding o using assms(2) by (force simp: image_iff)
  have u: "(a, b) \<in> set m \<Longrightarrow> (a, c) \<in> set m \<Longrightarrow> b = c" for a b c
    using qm_sorted_distinct [OF assms(1)] by (rule eq_key_imp_eq_value)
  have "inj_on (\<lambda>p. f' (fst p)) (set ?o)"
    unfolding o by (rule inj_onI) (use assms(2) in \<open>auto dest: u\<close>)
  then have "distinct (map fst (map ?r ?o))"
    using qm_sorted_distinct [OF so] by (simp add: distinct_map comp_def)
  then have "set (put_all qm_insert (map ?r ?o) []) = set m"
    using r by (simp add: set_put_all)
  then have "put_all qm_insert (map ?r ?o) [] = m"
    using assms(1) by (intro qm_eqI) (simp_all add: qm_sorted_put_all)
  then show ?thesis
    by (simp only: put_all_map [of f' g'] put_all_map [of f g])
qed

end
