(* ===== verification/Fp.thy ===== *)
theory Fp
  imports Prelude Complex_Main
begin

text \<open>
  IEEE 754 binary32 and binary64 as the code uses them: \<^verbatim>\<open>float\<close> and \<^verbatim>\<open>double\<close> products,
  quotients, comparisons and conversions, every result rounded to nearest, ties to even.

  A value is a datatype \<open>fp\<close>; the finite ones are \<open>Fin s m e\<close>, meaning \<open>(-1)^s * m * 2^e\<close>
  with \<open>m\<close> odd or zero, so that equal values are equal terms (\<open>s\<close> keeps the sign of zero).
  \<open>float_of_bits\<close> and \<open>bits_of_float\<close> are the \<^verbatim>\<open>memcpy\<close> between a \<^verbatim>\<open>float\<close> and its 32 bits in
  src/proto.cpp.
\<close>

datatype fp = NaN | Inf bool | Fin bool nat int

subsection \<open>Normal form\<close>

function strip2 :: "nat \<Rightarrow> int \<Rightarrow> nat \<times> int" where
  "strip2 m e = (if m = 0 then (0, 0) else if even m then strip2 (m div 2) (e + 1) else (m, e))"
  by pat_completeness auto
termination
  by (relation "measure fst") auto

declare strip2.simps [simp del]

definition mkfp :: "bool \<Rightarrow> nat \<Rightarrow> int \<Rightarrow> fp" where
  "mkfp s m e = (case strip2 m e of (m', e') \<Rightarrow> Fin s m' e')"

lemma strip2_normal: "strip2 m e = (m', e') \<Longrightarrow> m' = 0 \<and> e' = 0 \<or> odd m'"
proof (induction m e rule: strip2.induct)
  case (1 m e)
  then show ?case by (auto simp: strip2.simps [of m e] split: if_splits)
qed

lemma strip2_value: "strip2 m e = (m', e') \<Longrightarrow>
    real m * 2 powi e = real m' * 2 powi e'"
proof (induction m e rule: strip2.induct)
  case (1 m e)
  show ?case
  proof (cases "m \<noteq> 0 \<and> even m")
    case True
    then have "strip2 (m div 2) (e + 1) = (m', e')"
      using 1 by (simp add: strip2.simps [of m e])
    with 1 True have "real (m div 2) * 2 powi (e + 1) = real m' * 2 powi e'"
      by simp
    moreover have "real (m div 2) * 2 powi (e + 1) = real m * 2 powi e"
      using True by (simp add: power_int_add real_of_nat_div)
    ultimately show ?thesis by simp
  next
    case False
    with 1 show ?thesis by (auto simp: strip2.simps [of m e] split: if_splits)
  qed
qed

subsection \<open>Rounding a quotient\<close>

fun nbits :: "nat \<Rightarrow> nat" where
  "nbits n = (if n = 0 then 0 else Suc (nbits (n div 2)))"

declare nbits.simps [simp del]

text \<open>\<open>scale n d e\<close> is \<open>n / (d * 2^e)\<close> as a pair of naturals.\<close>

definition scale :: "nat \<Rightarrow> nat \<Rightarrow> int \<Rightarrow> nat \<times> nat" where
  "scale n d e = (if 0 \<le> e then (n, d * 2 ^ nat e) else (n * 2 ^ nat (- e), d))"

text \<open>\<open>ilog2 n d\<close> is the \<open>k\<close> with \<open>2^k \<le> n / d < 2^(k+1)\<close>, for positive \<open>n\<close> and \<open>d\<close>.\<close>

definition ilog2 :: "nat \<Rightarrow> nat \<Rightarrow> int" where
  "ilog2 n d =
     (let k = int (nbits n) - int (nbits d); (a, b) = scale n d k in if b \<le> a then k else k - 1)"

definition round_even :: "nat \<Rightarrow> nat \<Rightarrow> nat" where
  "round_even a b =
     (let q = a div b; r = a mod b in
      if b < 2 * r \<or> (2 * r = b \<and> odd q) then Suc q else q)"

text \<open>
  \<open>fp_round p emin emax s n d\<close>: the value \<open>(-1)^s * n / d\<close> in the format with \<open>p\<close> significand
  bits, least exponent \<open>emin\<close> (of the unit in the last place of a subnormal) and greatest binade
  \<open>emax\<close>.
\<close>

definition fp_round :: "nat \<Rightarrow> int \<Rightarrow> int \<Rightarrow> bool \<Rightarrow> nat \<Rightarrow> nat \<Rightarrow> fp" where
  "fp_round p emin emax s n d =
     (if n = 0 then Fin s 0 0
      else let e = max (ilog2 n d - (int p - 1)) emin;
               (a, b) = scale n d e;
               q = round_even a b
           in if emax + 1 \<le> int (nbits q) - 1 + e then Inf s else mkfp s q e)"

definition round32 :: "bool \<Rightarrow> nat \<Rightarrow> nat \<Rightarrow> fp" where
  "round32 = fp_round 24 (-149) 127"

definition round64 :: "bool \<Rightarrow> nat \<Rightarrow> nat \<Rightarrow> fp" where
  "round64 = fp_round 53 (-1074) 1023"

subsection \<open>Arithmetic\<close>

definition pow2_frac :: "nat \<Rightarrow> int \<Rightarrow> nat \<times> nat" where
  "pow2_frac m e = (if 0 \<le> e then (m * 2 ^ nat e, 1) else (m, 2 ^ nat (- e)))"

definition fp_mul :: "(bool \<Rightarrow> nat \<Rightarrow> nat \<Rightarrow> fp) \<Rightarrow> fp \<Rightarrow> fp \<Rightarrow> fp" where
  "fp_mul rnd x y =
     (case (x, y) of
        (Fin s m e, Fin t n f) \<Rightarrow> (case pow2_frac (m * n) (e + f) of (a, b) \<Rightarrow> rnd (s \<noteq> t) a b)
      | (Inf s, Inf t) \<Rightarrow> Inf (s \<noteq> t)
      | (Inf s, Fin t n f) \<Rightarrow> (if n = 0 then NaN else Inf (s \<noteq> t))
      | (Fin s m e, Inf t) \<Rightarrow> (if m = 0 then NaN else Inf (s \<noteq> t))
      | _ \<Rightarrow> NaN)"

definition fp_div :: "(bool \<Rightarrow> nat \<Rightarrow> nat \<Rightarrow> fp) \<Rightarrow> fp \<Rightarrow> fp \<Rightarrow> fp" where
  "fp_div rnd x y =
     (case (x, y) of
        (Fin s m e, Fin t n f) \<Rightarrow>
          (if n = 0 then (if m = 0 then NaN else Inf (s \<noteq> t))
           else case pow2_frac m (e - f) of (a, b) \<Rightarrow> rnd (s \<noteq> t) a (b * n))
      | (Inf s, Inf t) \<Rightarrow> NaN
      | (Inf s, Fin t n f) \<Rightarrow> Inf (s \<noteq> t)
      | (Fin s m e, Inf t) \<Rightarrow> Fin (s \<noteq> t) 0 0
      | _ \<Rightarrow> NaN)"

text \<open>\<^verbatim>\<open>x > 0\<close>: false for NaN and for both zeros.\<close>

definition fp_pos :: "fp \<Rightarrow> bool" where
  "fp_pos x = (case x of NaN \<Rightarrow> False | Inf s \<Rightarrow> \<not> s | Fin s m e \<Rightarrow> \<not> s \<and> m \<noteq> 0)"

text \<open>An \<^verbatim>\<open>int\<close> as a \<^verbatim>\<open>double\<close> (exact) or as a \<^verbatim>\<open>float\<close> (rounded).\<close>

definition double_of_int :: "int \<Rightarrow> fp" where
  "double_of_int i = round64 (i < 0) (nat \<bar>i\<bar>) 1"

definition float_of_int :: "int \<Rightarrow> fp" where
  "float_of_int i = round32 (i < 0) (nat \<bar>i\<bar>) 1"

text \<open>A \<^verbatim>\<open>double\<close> narrowed to \<^verbatim>\<open>float\<close>.\<close>

definition float_of_double :: "fp \<Rightarrow> fp" where
  "float_of_double x =
     (case x of Fin s m e \<Rightarrow> (case pow2_frac m e of (a, b) \<Rightarrow> round32 s a b) | y \<Rightarrow> y)"

text \<open>
  \<^verbatim>\<open>static_cast<int>\<close> truncates towards zero. Out of the range of \<^verbatim>\<open>int\<close>, or on NaN, C++ leaves the
  result undefined: \<open>ub\<close> is whatever the platform then produces.
\<close>

definition fp_trunc :: "fp \<Rightarrow> int option" where
  "fp_trunc x =
     (case x of
        Fin s m e \<Rightarrow> (case pow2_frac m e of (a, b) \<Rightarrow> Some ((if s then -1 else 1) * int (a div b)))
      | _ \<Rightarrow> None)"

definition fp_to_int :: "(fp \<Rightarrow> int) \<Rightarrow> fp \<Rightarrow> int" where
  "fp_to_int ub x =
     (case fp_trunc x of
        Some i \<Rightarrow> (if - (2 ^ 31) \<le> i \<and> i < 2 ^ 31 then i else ub x)
      | None \<Rightarrow> ub x)"

text \<open>\<^verbatim>\<open>std::round\<close>: to the nearest integer, halves away from zero.\<close>

definition fp_round_int :: "fp \<Rightarrow> fp" where
  "fp_round_int x =
     (case x of
        Fin s m e \<Rightarrow> (if 0 \<le> e then Fin s m e
                     else case pow2_frac m e of (a, b) \<Rightarrow> mkfp s ((2 * a + b) div (2 * b)) 0)
      | y \<Rightarrow> y)"

subsection \<open>Bits\<close>

definition float_of_bits :: "quint32 \<Rightarrow> fp" where
  "float_of_bits w =
     (let s = bit w 31; ex = unat (drop_bit 23 w AND 0xFF); man = unat (w AND 0x7FFFFF) in
      if ex = 255 then (if man = 0 then Inf s else NaN)
      else if ex = 0 then mkfp s man (-149)
      else mkfp s (man + 2 ^ 23) (int ex - 150))"

definition bits_of_float :: "fp \<Rightarrow> quint32" where
  "bits_of_float x =
     (case x of
        NaN \<Rightarrow> 0x7FC00000
      | Inf s \<Rightarrow> (if s then 0xFF800000 else 0x7F800000)
      | Fin s m e \<Rightarrow>
          (if s then 0x80000000 else 0) +
          (if m = 0 then 0
           else let k = int (nbits m) - 1 + e in
                if k < -126 then word_of_nat (m * 2 ^ nat (e + 149))
                else word_of_int ((k + 127) * 2 ^ 23) +
                     word_of_nat (m * 2 ^ nat (24 - int (nbits m)) - 2 ^ 23)))"

text \<open>Two constants of the code: \<^verbatim>\<open>0.5f\<close> and \<^verbatim>\<open>1.0f\<close>.\<close>

definition fp_one :: fp where
  "fp_one = Fin False 1 0"

definition fp_half :: fp where
  "fp_half = Fin False 1 (-1)"

definition fp_zero :: fp where
  "fp_zero = Fin False 0 0"

subsection \<open>Facts the components use\<close>

text \<open>
  Rewrite rules that run the two recursions on binary numerals: with \<open>fp_eval\<close> they let the
  simplifier compute any closed floating-point term.
\<close>

lemma nbits_eval [simp]:
  "nbits 0 = 0"
  "nbits 1 = 1"
  "nbits (Suc 0) = 1"
  "nbits (numeral (num.Bit0 k)) = Suc (nbits (numeral k))"
  "nbits (numeral (num.Bit1 k)) = Suc (nbits (numeral k))"
proof -
  have d: "numeral (num.Bit0 k) div 2 = (numeral k :: nat)" "numeral (num.Bit1 k) div 2 = (numeral k :: nat)"
    by simp_all
  show "nbits (numeral (num.Bit0 k)) = Suc (nbits (numeral k))"
    by (subst nbits.simps) (simp only: d, simp)
  show "nbits (numeral (num.Bit1 k)) = Suc (nbits (numeral k))"
    by (subst nbits.simps) (simp only: d, simp)
  show "nbits 0 = 0" by (subst nbits.simps) simp
  show "nbits 1 = 1" "nbits (Suc 0) = 1" by (subst nbits.simps, simp, subst nbits.simps, simp)+
qed

lemma strip2_eval [simp]:
  "strip2 0 e = (0, 0)"
  "strip2 1 e = (1, e)"
  "strip2 (Suc 0) e = (1, e)"
  "strip2 (numeral (num.Bit0 k)) e = strip2 (numeral k) (e + 1)"
  "strip2 (numeral (num.Bit1 k)) e = (numeral (num.Bit1 k), e)"
proof -
  have d: "numeral (num.Bit0 k) div 2 = (numeral k :: nat)" by simp
  show "strip2 (numeral (num.Bit0 k)) e = strip2 (numeral k) (e + 1)"
    by (subst strip2.simps) (simp only: d, simp)
qed (simp_all add: strip2.simps)

lemmas fp_eval =
  fp_mul_def fp_div_def fp_pos_def float_of_int_def double_of_int_def float_of_double_def
  fp_trunc_def fp_to_int_def fp_round_int_def round32_def round64_def fp_round_def ilog2_def
  scale_def round_even_def pow2_frac_def mkfp_def Let_def

lemma fp_one_bits: "bits_of_float fp_one = 0x3F800000"
  by (simp add: bits_of_float_def fp_one_def)

lemma fp_zero_bits: "bits_of_float fp_zero = 0"
  by (simp add: bits_of_float_def fp_zero_def)

lemma fp_pos_trunc_nonneg: "fp_pos x \<Longrightarrow> fp_trunc x = Some i \<Longrightarrow> 0 \<le> i"
  by (auto simp: fp_pos_def fp_trunc_def split: fp.splits prod.splits)

lemma fp_to_int_range:
  assumes "\<And>y. - (2 ^ 31) \<le> ub y \<and> ub y < 2 ^ 31"
  shows "- (2 ^ 31) \<le> fp_to_int ub x \<and> fp_to_int ub x < 2 ^ 31"
  using assms [of x] by (auto simp: fp_to_int_def split: option.splits)
subsection \<open>Integers in floating point\<close>

lemma strip2_nat:
  "strip2 m e = (m', e') \<Longrightarrow> 0 < m \<Longrightarrow> e \<le> e' \<and> m = m' * 2 ^ nat (e' - e)"
proof (induction m e rule: strip2.induct)
  case (1 m e)
  show ?case
  proof (cases "even m")
    case True
    then have "0 < m div 2" using 1 by presburger
    with True 1 have ih: "e + 1 \<le> e'" "m div 2 = m' * 2 ^ nat (e' - (e + 1))"
      by (simp_all add: strip2.simps [of m e])
    have "m = 2 * (m div 2)" using True by simp
    moreover have "nat (e' - e) = Suc (nat (e' - (e + 1)))" using ih(1) by simp
    ultimately show ?thesis using ih by simp
  next
    case False
    with 1 show ?thesis by (simp add: strip2.simps [of m e])
  qed
qed

lemma strip2_shift: "0 < m \<Longrightarrow> strip2 (m * 2 ^ k) (e - int k) = strip2 m e"
proof (induction k arbitrary: e)
  case (Suc k)
  have "strip2 (m * 2 ^ Suc k) (e - int (Suc k)) = strip2 (m * 2 ^ k) (e - int k)"
    using Suc.prems by (subst strip2.simps) (simp add: algebra_simps)
  then show ?case using Suc by simp
qed simp

lemma nbits_bounds: "0 < n \<Longrightarrow> 2 ^ (nbits n - 1) \<le> n \<and> n < 2 ^ nbits n \<and> 0 < nbits n"
proof (induction n rule: nbits.induct)
  case (1 n)
  show ?case
  proof (cases "n = 1")
    case False
    with 1 have ih: "2 ^ (nbits (n div 2) - 1) \<le> n div 2" "n div 2 < 2 ^ nbits (n div 2)" "0 < nbits (n div 2)"
      by auto
    have n: "nbits n = Suc (nbits (n div 2))" using 1 by (simp add: nbits.simps [of n])
    obtain b where b: "nbits (n div 2) = Suc b" using ih(3) gr0_conv_Suc by auto
    have "2 * 2 ^ b \<le> n" "n < 2 * 2 ^ Suc b" using ih(1,2) b by (simp_all add: less_mult_imp_div_less)
    then show ?thesis using n b by simp
  qed simp
qed

lemma nbits_unique: "2 ^ k \<le> n \<Longrightarrow> n < 2 ^ Suc k \<Longrightarrow> nbits n = Suc k"
proof (induction k arbitrary: n)
  case 0
  then have "n = 1" by simp
  then show ?case by simp
next
  case (Suc k)
  then have "2 ^ k \<le> n div 2" "n div 2 < 2 ^ Suc k" by auto
  with Suc.IH have "nbits (n div 2) = Suc k" by blast
  moreover have "n \<noteq> 0" using Suc.prems by auto
  ultimately show ?case by (simp add: nbits.simps [of n])
qed

lemma nbits_shift:
  assumes "0 < n"
  shows "nbits (n * 2 ^ k) = nbits n + k"
proof -
  obtain b where b: "nbits n = Suc b" "2 ^ b \<le> n" "n < 2 ^ Suc b"
    using nbits_bounds [OF assms] by (cases "nbits n") auto
  have "2 ^ (b + k) \<le> n * 2 ^ k" "n * 2 ^ k < 2 ^ Suc (b + k)"
    using b(2,3) by (simp_all add: power_add)
  then show ?thesis using nbits_unique [of "b + k"] b(1) by simp
qed

lemma nbits_less: "n < 2 ^ k \<Longrightarrow> nbits n \<le> k"
proof (cases "0 < n")
  case True
  assume "n < 2 ^ k"
  with nbits_bounds [OF True] have "(2::nat) ^ (nbits n - 1) < 2 ^ k" by linarith
  then show ?thesis using nbits_bounds [OF True] by simp
qed simp

lemma fp_round_nat:
  assumes "n < 2 ^ p" "0 < p" "emin \<le> 0" "int p \<le> emax"
  shows "fp_round p emin emax s n 1 = mkfp s n 0"
proof (cases "n = 0")
  case False
  let ?e = "max (ilog2 n 1 - (int p - 1)) emin"
  let ?k = "nat (- ?e)"
  have n: "0 < n" using False by simp
  have l: "ilog2 n 1 = int (nbits n) - 1"
    using nbits_bounds [OF n] by (auto simp: ilog2_def scale_def Let_def nat_diff_distrib)
  have nb: "int (nbits n) \<le> int p" using nbits_less [OF assms(1)] by simp
  then have e: "?e \<le> 0" "?e = - int ?k" using assms l by auto
  have s: "scale n 1 ?e = (n * 2 ^ ?k, 1)" using e by (auto simp: scale_def)
  have r: "round_even (n * 2 ^ ?k) 1 = n * 2 ^ ?k" by (simp add: round_even_def)
  have "mkfp s (n * 2 ^ ?k) ?e = mkfp s n 0"
    using strip2_shift [OF n, of ?k 0] e(2) by (simp add: mkfp_def)
  moreover have "\<not> emax + 1 \<le> int (nbits (n * 2 ^ ?k)) - 1 + ?e"
    using nb assms(4) e(2) by (simp add: nbits_shift [OF n] del: max_def)
  ultimately show ?thesis
    using False s r by (simp add: fp_round_def Let_def)
qed (simp add: fp_round_def mkfp_def)

lemma double_of_int_exact: "\<bar>i\<bar> < 2 ^ 53 \<Longrightarrow> double_of_int i = mkfp (i < 0) (nat \<bar>i\<bar>) 0"
  using fp_round_nat [of "nat \<bar>i\<bar>" 53 "-1074" 1023] by (simp add: double_of_int_def round64_def nat_less_iff)

lemma float_of_int_exact: "\<bar>i\<bar> < 2 ^ 24 \<Longrightarrow> float_of_int i = mkfp (i < 0) (nat \<bar>i\<bar>) 0"
  using fp_round_nat [of "nat \<bar>i\<bar>" 24 "-149" 127] by (simp add: float_of_int_def round32_def nat_less_iff)

lemma mkfp_nat: "\<exists>m e. mkfp s n 0 = Fin s m e \<and> 0 \<le> e \<and> n = m * 2 ^ nat e"
proof (cases "n = 0")
  case False
  then show ?thesis
    using strip2_nat [of n 0] by (cases "strip2 n 0") (auto simp: mkfp_def)
qed (simp add: mkfp_def)

lemma fp_trunc_mkfp: "fp_trunc (mkfp s n 0) = Some ((if s then -1 else 1) * int n)"
  using mkfp_nat [of s n] by (auto simp: fp_trunc_def pow2_frac_def)

lemma fp_trunc_double_of_int: "\<bar>i\<bar> < 2 ^ 53 \<Longrightarrow> fp_trunc (double_of_int i) = Some i"
  by (simp add: double_of_int_exact fp_trunc_mkfp)

subsection \<open>Scaling and exact results\<close>

lemma round_even_scale: "0 < c \<Longrightarrow> round_even (a * c) (b * c) = round_even a b"
  by (simp add: round_even_def Let_def div_mult_mult2 mod_mult_mult2 mult.assoc [symmetric] del: mult_Suc_right)

lemma scale_scale: "scale (n * 2 ^ k) (d * 2 ^ k) e = (fst (scale n d e) * 2 ^ k, snd (scale n d e) * 2 ^ k)"
  by (simp add: scale_def)

lemma ilog2_scale: "0 < n \<Longrightarrow> 0 < d \<Longrightarrow> ilog2 (n * 2 ^ k) (d * 2 ^ k) = ilog2 n d"
  by (simp add: ilog2_def Let_def nbits_shift scale_scale prod.case_eq_if)

lemma fp_round_scale:
  "0 < n \<Longrightarrow> 0 < d \<Longrightarrow> fp_round p emin emax s (n * 2 ^ k) (d * 2 ^ k) = fp_round p emin emax s n d"
  by (simp add: fp_round_def Let_def ilog2_scale scale_scale prod.case_eq_if round_even_scale)

lemma strip2_pow: "0 < q \<Longrightarrow> \<exists>m t. strip2 q e = (m, e + int t) \<and> q = m * 2 ^ t \<and> 0 < m"
proof -
  assume q: "0 < q"
  obtain m e' where s: "strip2 q e = (m, e')" by (cases "strip2 q e")
  have "e \<le> e'" "q = m * 2 ^ nat (e' - e)" using strip2_nat [OF s q] by auto
  then show ?thesis using s q by (intro exI [of _ m] exI [of _ "nat (e' - e)"]) auto
qed

text \<open>A product with a whole number, in terms of the unnormalised factor.\<close>

lemma fp_mul_mkfp:
  assumes "0 < q" "0 < w"
  shows "fp_mul (fp_round p emin emax) (mkfp s q (- int K)) (Fin False w 0) = fp_round p emin emax s (q * w) (2 ^ K)"
proof -
  obtain m t where st: "strip2 q (- int K) = (m, - int K + int t)" "q = m * 2 ^ t" "0 < m"
    using strip2_pow [OF assms(1)] by blast
  show ?thesis
  proof (cases "K \<le> t")
    case True
    then obtain u where u: "t = K + u" using le_Suc_ex by blast
    have qw: "q * w = (m * w * 2 ^ u) * 2 ^ K" by (simp add: st(2) u power_add)
    have "fp_round p emin emax s (q * w) (2 ^ K) = fp_round p emin emax s (m * w * 2 ^ u) 1"
      unfolding qw using fp_round_scale [of "m * w * 2 ^ u" 1 p emin emax s K] st(3) assms(2) by simp
    then show ?thesis by (simp add: fp_mul_def mkfp_def st(1) pow2_frac_def u)
  next
    case False
    then obtain u where u: "K = t + u" "0 < u" using less_imp_add_positive [of t K] by auto
    have qw: "q * w = (m * w) * 2 ^ t" "(2::nat) ^ K = 2 ^ u * 2 ^ t" by (simp_all add: st(2) u(1) power_add)
    have "fp_round p emin emax s (q * w) (2 ^ K) = fp_round p emin emax s (m * w) (2 ^ u)"
      unfolding qw using fp_round_scale [of "m * w" "2 ^ u" p emin emax s t] st(3) assms(2) by simp
    moreover have "mkfp s q (- int K) = Fin s m (- int u)" using st(1) u by (simp add: mkfp_def)
    ultimately show ?thesis using u(2) by (simp add: fp_mul_def pow2_frac_def)
  qed
qed

lemma fp_trunc_frac: "0 < q \<Longrightarrow> fp_trunc (mkfp False q (- int K)) = Some (int (q div 2 ^ K))"
proof -
  assume "0 < q"
  then obtain m t where st: "strip2 q (- int K) = (m, - int K + int t)" "q = m * 2 ^ t" "0 < m"
    using strip2_pow by blast
  show ?thesis
  proof (cases "K \<le> t")
    case True
    then obtain u where u: "t = K + u" using le_Suc_ex by blast
    have "q div 2 ^ K = m * 2 ^ u" by (simp add: st(2) u power_add)
    then show ?thesis by (simp add: mkfp_def st(1) fp_trunc_def pow2_frac_def u)
  next
    case False
    then obtain u where u: "K = t + u" "0 < u" using less_imp_add_positive [of t K] by auto
    have "q div 2 ^ K = m div 2 ^ u" by (simp add: st(2) u(1) power_add)
    moreover have "mkfp False q (- int K) = Fin False m (- int u)" using st(1) u by (simp add: mkfp_def)
    ultimately show ?thesis using u(2) by (simp add: fp_trunc_def pow2_frac_def)
  qed
qed

text \<open>A quotient by a power of two that fits is exact.\<close>

lemma fp_round_exact:
  assumes "0 < a" "a < 2 ^ p" "0 < p" "emin \<le> - int K" "int p \<le> emax"
  shows "fp_round p emin emax s a (2 ^ K) = mkfp s a (- int K)"
proof -
  obtain c where c: "nbits a = Suc c" "2 ^ c \<le> a" "a < 2 ^ Suc c"
    using nbits_bounds [OF assms(1)] by (cases "nbits a") auto
  have cp: "Suc c \<le> p" using nbits_less [OF assms(2)] c(1) by simp
  have nK: "nbits (2 ^ K) = Suc K" using nbits_shift [of 1 K] by simp
  have l: "ilog2 a (2 ^ K) = int c - int K"
  proof (cases "K \<le> c")
    case True
    then have "scale a (2 ^ K) (int c - int K) = (a, 2 ^ c)"
      by (simp add: scale_def nat_diff_distrib power_add [symmetric])
    then show ?thesis using c by (simp add: ilog2_def nK Let_def)
  next
    case False
    then have "scale a (2 ^ K) (int c - int K) = (a * 2 ^ (K - c), 2 ^ K)"
      by (simp add: scale_def nat_diff_distrib)
    moreover have "(2::nat) ^ K = 2 ^ c * 2 ^ (K - c)" using False by (simp add: power_add [symmetric])
    then have "2 ^ K \<le> a * 2 ^ (K - c)" using c(2) by simp
    ultimately show ?thesis using c(1) by (simp add: ilog2_def nK Let_def)
  qed
  obtain e where e': "e = max (int c - int K - (int p - 1)) emin" by simp
  let ?e = e
  let ?u = "nat (- int K - e)"
  have e: "e = - int K - int ?u" using cp assms(4) unfolding e' by auto
  have q: "round_even (fst (scale a (2 ^ K) e)) (snd (scale a (2 ^ K) e)) = a * 2 ^ ?u"
  proof (cases "e = 0")
    case True
    then have "K = 0" "?u = 0" using e by auto
    then show ?thesis using True by (simp add: scale_def round_even_def)
  next
    case False
    then have ne: "e < 0" using e by linarith
    then have "nat (- e) = ?u + K" using e by linarith
    then have "scale a (2 ^ K) e = (a * 2 ^ ?u * 2 ^ K, 1 * 2 ^ K)"
      using ne by (simp add: scale_def power_add)
    then show ?thesis using round_even_scale [of "2 ^ K" "a * 2 ^ ?u" 1] by (simp add: round_even_def)
  qed
  have "mkfp s (a * 2 ^ ?u) ?e = mkfp s a (- int K)"
    using strip2_shift [OF assms(1), of ?u "- int K"] e by (simp add: mkfp_def)
  moreover have "\<not> emax + 1 \<le> int (nbits (a * 2 ^ ?u)) - 1 + ?e"
    using cp assms(5) e by (simp add: nbits_shift [OF assms(1)] c(1))
  ultimately show ?thesis
    using assms(1) q by (simp add: fp_round_def Let_def l e' [symmetric] prod.case_eq_if)
qed

subsection \<open>A normal number's bits\<close>

lemma bits_of_float_normal:
  assumes "2 ^ 23 \<le> q" "q < 2 ^ 24" "K < 150"
  shows "unat (bits_of_float (mkfp False q (- int K))) = (150 - K) * 2 ^ 23 + (q - 2 ^ 23)"
proof -
  have q: "0 < q" using assms(1) by simp
  obtain m t where st: "strip2 q (- int K) = (m, - int K + int t)" "q = m * 2 ^ t" "0 < m"
    using strip2_pow [OF q] by blast
  have "nbits q = 24" using nbits_unique [of 23 q] assms(1,2) by simp
  then have nb: "nbits m + t = 24" using nbits_shift [OF st(3), of t] st(2) by simp
  let ?k = "int (nbits m) - 1 + (- int K + int t)"
  have k: "?k = 23 - int K" using nb by linarith
  have "\<not> ?k < -126" using assms(3) k by linarith
  then have b: "bits_of_float (mkfp False q (- int K)) = word_of_int ((?k + 127) * 2 ^ 23) +
      word_of_nat (m * 2 ^ nat (24 - int (nbits m)) - 2 ^ 23)"
    using st(3) by (simp add: mkfp_def st(1) bits_of_float_def Let_def del: of_int_mult of_nat_diff)
  have "nat (24 - int (nbits m)) = t" using nb by simp
  then have "m * 2 ^ nat (24 - int (nbits m)) = q" by (simp add: st(2))
  moreover have "word_of_int ((?k + 127) * 2 ^ 23) = (word_of_nat ((150 - K) * 2 ^ 23) :: 32 word)"
  proof -
    have "(?k + 127) * 2 ^ 23 = int ((150 - K) * 2 ^ 23)" using k assms(3) by (simp add: of_nat_diff)
    then show ?thesis by (simp only: of_int_of_nat_eq)
  qed
  ultimately have w: "bits_of_float (mkfp False q (- int K)) = word_of_nat ((150 - K) * 2 ^ 23 + (q - 2 ^ 23))"
    unfolding b by (simp only: of_nat_add)
  have "(150 - K) * 2 ^ 23 + (q - 2 ^ 23) < 2 ^ 32"
  proof -
    have "(150 - K) * 2 ^ 23 \<le> 150 * 2 ^ 23" by (intro mult_right_mono) simp_all
    then show ?thesis using assms(1,2) by simp
  qed
  then show ?thesis unfolding w by (subst unat_of_nat) simp
qed

lemma float_of_bits_normal:
  assumes "unat w = E * 2 ^ 23 + M" "M < 2 ^ 23" "0 < E" "E < 255"
  shows "float_of_bits w = mkfp False (M + 2 ^ 23) (int E - 150)"
proof -
  have "E * 2 ^ 23 \<le> 254 * 2 ^ 23" using assms(4) by (intro mult_right_mono) simp_all
  then have "unat w < 2 ^ 31" using assms(1,2) by simp
  then have "\<not> bit (unat w) 31" by (simp add: bit_iff_odd)
  moreover have "bit (unat w) 31 = bit w 31" by (simp add: bit_unsigned_iff)
  ultimately have s: "\<not> bit w 31" by simp
  have m: "(0xFF :: 32 word) = mask 8" "(0x7FFFFF :: 32 word) = mask 23" by (simp_all add: mask_eq_decr_exp)
  have "unat (drop_bit 23 w AND 0xFF) = take_bit 8 (unat w div 2 ^ 23)"
      "unat (w AND 0x7FFFFF) = take_bit 23 (unat w)"
    unfolding m take_bit_eq_mask [symmetric]
    by (simp_all only: unsigned_take_bit_eq unat_drop_bit_eq) (simp_all only: drop_bit_eq_div)
  moreover have "unat w div 2 ^ 23 = E" "unat w mod 2 ^ 23 = M" using assms(1,2) by simp_all
  ultimately have "unat (drop_bit 23 w AND 0xFF) = E" "unat (w AND 0x7FFFFF) = M"
    using assms(4) by (simp_all add: take_bit_eq_mod)
  then show ?thesis using s assms(3,4) by (simp add: float_of_bits_def Let_def)
qed

lemma float_bits_normal:
  assumes "2 ^ 23 \<le> q" "q < 2 ^ 24" "K < 150"
  shows "float_of_bits (bits_of_float (mkfp False q (- int K))) = mkfp False q (- int K)"
proof -
  have "q - 2 ^ 23 < 2 ^ 23" "0 < 150 - K" "150 - K < 255" using assms by simp_all
  from float_of_bits_normal [OF bits_of_float_normal [OF assms] this] show ?thesis
    using assms(1,3) by (simp add: of_nat_diff)
qed

subsection \<open>Two hundred and fifty-fifths\<close>

text \<open>
  \<open>n / 255\<close> in single precision, for \<open>0 < n < 255\<close>: with \<open>r\<close> the number shifted up to eight bits,
  the significand is \<open>65793 * r + 1\<close>, just above the exact quotient.
\<close>

lemma div255:
  assumes "0 < n" "n < 255" "r = n * 2 ^ j" "128 \<le> r" "r < 255"
  shows "fp_div round32 (float_of_int (int n)) (float_of_int 255) = mkfp False (65793 * r + 1) (- int (24 + j))"
proof -
  have nb: "nbits r = 8" using nbits_unique [of 7 r] assms(4,5) by simp
  then have nbn: "nbits n + j = 8" using nbits_shift [OF assms(1), of j] assms(3) by simp
  obtain m t where st: "strip2 n 0 = (m, int t)" "n = m * 2 ^ t" "0 < m"
    using strip2_pow [OF assms(1), of 0] by auto
  have f: "float_of_int (int n) = Fin False m (int t)"
    using float_of_int_exact [of "int n"] assms(2) by (simp add: mkfp_def st(1))
  have f255: "float_of_int 255 = Fin False 255 0"
    using float_of_int_exact [of 255] by (simp add: mkfp_def)
  have d: "fp_div round32 (float_of_int (int n)) (float_of_int 255) = round32 False n 255"
    by (simp add: fp_div_def f f255 pow2_frac_def st(2) [symmetric])
  have n255: "nbits 255 = 8" by simp
  have "scale n 255 (int (nbits n) - 8) = (r, 255)"
    using nbn by (cases "j = 0") (auto simp: scale_def assms(3))
  then have l: "ilog2 n 255 = int (nbits n) - 9"
    using assms(5) by (simp add: ilog2_def n255 Let_def)
  have s: "scale n 255 (- int (24 + j)) = (r * 2 ^ 24, 255)"
    by (simp add: scale_def assms(3) power_add nat_add_distrib)
  have "r * 2 ^ 24 = 255 * (65793 * r) + r" by simp
  then have "r * 2 ^ 24 div 255 = 65793 * r" "r * 2 ^ 24 mod 255 = r"
    using assms(5) by (simp_all only: div_mult_self4 mod_mult_self4) simp_all
  then have re: "round_even (r * 2 ^ 24) 255 = 65793 * r + 1"
    using assms(4) by (simp add: round_even_def Let_def)
  have nq: "nbits (65793 * r + 1) = 24"
    using nbits_unique [of 23 "65793 * r + 1"] assms(4,5) by simp
  have e: "max (int (nbits n) - 9 - (int 24 - 1)) (-149) = - int (24 + j)" using nbn by auto
  show ?thesis
    using assms(1) nq unfolding d unfolding round32_def fp_round_def
    by (simp only: l e Let_def s prod.case re) simp
qed

lemma mul255:
  assumes "0 < n" "r = n * 2 ^ j" "128 \<le> r" "r < 255" "j \<le> 7"
  defines "x \<equiv> mkfp False (65793 * r + 1) (- int (24 + j))"
  shows "fp_mul round32 x (float_of_int 255) = mkfp False n 0"
    and "fp_trunc (fp_mul round64 x (double_of_int 255)) = Some (int n)"
proof -
  let ?A = "(65793 * r + 1) * 255"
  have A: "?A = r * 2 ^ 24 + (255 - r)" using assms(4) by simp
  have f: "float_of_int 255 = Fin False 255 0" "double_of_int 255 = Fin False 255 0"
    using float_of_int_exact [of 255] double_of_int_exact [of 255] by (simp_all add: mkfp_def)
  have nA: "nbits ?A = 32" using nbits_unique [of 31 ?A] assms(3,4) A by simp
  have nr: "nbits r = 8" using nbits_unique [of 7 r] assms(3,4) by simp
  have nK: "nbits (2 ^ (24 + j)) = 25 + j" using nbits_shift [of 1 "24 + j"] by simp
  have "(2::nat) ^ (24 + j) * 2 ^ (7 - j) = 2 ^ 31" using assms(5) by (simp only: power_add [symmetric]) simp
  then have "scale ?A (2 ^ (24 + j)) (7 - int j) = (?A, 2 ^ 31)"
    using assms(5) by (simp add: scale_def nat_diff_distrib)
  moreover have "(2::nat) ^ 31 \<le> ?A" using assms(3) by simp
  ultimately have l: "ilog2 ?A (2 ^ (24 + j)) = 7 - int j"
    unfolding ilog2_def nA nK by (simp add: Let_def algebra_simps)
  have e: "max (7 - int j - (int 24 - 1)) (-149) = - int (16 + j)" using assms(5) by simp
  have "scale ?A (2 ^ (24 + j)) (- int (16 + j)) = (?A * 2 ^ (16 + j), 2 ^ (24 + j))"
    by (simp add: scale_def)
  moreover have "(2::nat) ^ (24 + j) = 256 * 2 ^ (16 + j)" by (simp add: power_add)
  moreover have "round_even ?A 256 = r * 65536"
  proof -
    have B: "?A = (255 - r) + 256 * (r * 65536)" using A by simp
    have "?A div 256 = r * 65536" "?A mod 256 = 255 - r"
      unfolding B using assms(4) by (simp_all only: div_mult_self2 mod_mult_self2) simp_all
    then show ?thesis using assms(3,4) by (simp add: round_even_def Let_def)
  qed
  ultimately have s: "scale ?A (2 ^ (24 + j)) (- int (16 + j)) = (?A * 2 ^ (16 + j), 256 * 2 ^ (16 + j))"
    and re: "round_even (?A * 2 ^ (16 + j)) (256 * 2 ^ (16 + j)) = r * 65536"
    using round_even_scale [of "2 ^ (16 + j)" ?A 256] by simp_all
  have nq: "nbits (r * 65536) = 24" using nbits_shift [of r 16] nr assms(3) by simp
  have n: "mkfp False (r * 65536) (- int (16 + j)) = mkfp False n 0"
  proof -
    have "r * 65536 = n * 2 ^ (16 + j)" by (simp add: assms(2) power_add)
    then show ?thesis using strip2_shift [OF assms(1), of "16 + j" 0] by (simp add: mkfp_def)
  qed
  have A0: "?A \<noteq> 0" by simp
  have "fp_mul round32 x (float_of_int 255) = round32 False ?A (2 ^ (24 + j))"
    unfolding x_def f round32_def by (rule fp_mul_mkfp) simp_all
  also have "\<dots> = mkfp False (r * 65536) (- int (16 + j))"
    using nq A0 unfolding round32_def fp_round_def by (simp only: l e Let_def s prod.case re) simp
  finally show "fp_mul round32 x (float_of_int 255) = mkfp False n 0" using n by simp
  have "fp_mul round64 x (double_of_int 255) = round64 False ?A (2 ^ (24 + j))"
    unfolding x_def f round64_def by (rule fp_mul_mkfp) simp_all
  also have "\<dots> = mkfp False ?A (- int (24 + j))"
    unfolding round64_def using assms(4,5) by (intro fp_round_exact) simp_all
  finally have "fp_trunc (fp_mul round64 x (double_of_int 255)) = Some (int (?A div 2 ^ (24 + j)))"
    using fp_trunc_frac [of ?A "24 + j"] by simp
  moreover have "?A div 2 ^ (24 + j) = n"
  proof -
    have "?A = (255 - r) + n * 2 ^ (24 + j)" using A by (simp add: assms(2) power_add)
    moreover have "255 - r < 2 ^ (24 + j)"
      using power_increasing [of 24 "24 + j" "2 :: nat"] by simp
    ultimately show ?thesis by simp
  qed
  ultimately show "fp_trunc (fp_mul round64 x (double_of_int 255)) = Some (int n)" by simp
qed

text \<open>
  A number of 255ths written as a \<^verbatim>\<open>float\<close> and read back through its bits: both ways the code scales
  it back, in single and in double precision, truncate to the number itself.
\<close>

lemma echo255:
  assumes "n \<le> 255"
  defines "x \<equiv> float_of_bits (bits_of_float (fp_div round32 (float_of_int (int n)) (float_of_int 255)))"
  shows "fp_to_int ub (fp_mul round32 x (float_of_int 255)) = int n"
    and "fp_to_int ub (fp_mul round64 x (double_of_int 255)) = int n"
proof -
  have "fp_trunc (fp_mul round32 x (float_of_int 255)) = Some (int n) \<and>
        fp_trunc (fp_mul round64 x (double_of_int 255)) = Some (int n)"
  proof -
    consider "n = 0" | "n = 255" | "0 < n" "n < 255" using assms(1) by linarith
    then show ?thesis
    proof cases
      case 1
      then have "x = Fin False 0 0"
        by (simp add: x_def fp_eval bits_of_float_def float_of_bits_def)
      then show ?thesis using 1 by (simp add: fp_eval)
    next
      case 2
      then have "fp_div round32 (float_of_int (int n)) (float_of_int 255) = fp_one"
        by (simp add: fp_eval fp_one_def)
      moreover have "float_of_bits 0x3F800000 = fp_one"
        using float_of_bits_normal [of "0x3F800000" 127 0] strip2_shift [of 1 23 0]
        by (simp add: mkfp_def fp_one_def)
      ultimately have "x = fp_one" unfolding x_def by (simp only: fp_one_bits)
      then show ?thesis using 2 by (simp add: fp_eval fp_one_def)
    next
      case 3
      define j where "j = 8 - nbits n"
      define r where "r = n * 2 ^ j"
      obtain b where b: "nbits n = Suc b" "2 ^ b \<le> n" "n < 2 ^ Suc b"
        using nbits_bounds [OF 3(1)] by (cases "nbits n") auto
      have "nbits n \<le> 8" using nbits_less [of n 8] 3(2) by simp
      then have j: "b + j = 7" "j \<le> 7" using b(1) by (simp_all add: j_def)
      have "2 ^ b * 2 ^ j \<le> r" "r < 2 ^ Suc b * 2 ^ j" unfolding r_def using b(2,3) by simp_all
      moreover have "(2::nat) ^ b * 2 ^ j = 128" using j(1) by (simp add: power_add [symmetric])
      ultimately have r: "128 \<le> r" "r < 256" by simp_all
      have "r \<noteq> 255"
      proof
        assume "r = 255"
        then have "odd (n * 2 ^ j)" by (simp add: r_def)
        then have "j = 0" by simp
        then show False using \<open>r = 255\<close> 3(2) by (simp add: r_def)
      qed
      then have r255: "r < 255" using r(2) by simp
      have "x = mkfp False (65793 * r + 1) (- int (24 + j))"
        unfolding x_def div255 [OF 3 r_def r(1) r255]
        using r(1) r255 j(2) by (intro float_bits_normal) simp_all
      then show ?thesis
        using mul255 [OF 3(1) r_def r(1) r255 j(2)] fp_trunc_mkfp [of False n] by simp
    qed
  qed
  then show "fp_to_int ub (fp_mul round32 x (float_of_int 255)) = int n"
    "fp_to_int ub (fp_mul round64 x (double_of_int 255)) = int n"
    using assms(1) by (simp_all add: fp_to_int_def)
qed

subsection \<open>Hundredths\<close>

text \<open>A percentage as a \<^verbatim>\<open>float\<close>, scaled back in double precision and rounded, is itself.\<close>

lemma ilog2_fraction:
  assumes "0 < n" "0 < d" "d \<le> n * 2 ^ j" "n * 2 ^ j < 2 * d"
  shows "ilog2 n d = - int j"
proof -
  obtain c where c: "nbits d = Suc c" "2 ^ c \<le> d" "d < 2 ^ Suc c"
    using nbits_bounds [OF assms(2)] by (cases "nbits d") auto
  have nb: "nbits (n * 2 ^ j) = nbits n + j" by (rule nbits_shift [OF assms(1)])
  have "2 ^ c \<le> n * 2 ^ j" "n * 2 ^ j < 2 ^ Suc (Suc c)" using assms(3,4) c(2,3) by simp_all
  then have "nbits (n * 2 ^ j) = Suc c \<or> nbits (n * 2 ^ j) = Suc (Suc c)"
    using nbits_unique [of c "n * 2 ^ j"] nbits_unique [of "Suc c" "n * 2 ^ j"] by force
  then consider "nbits n + j = nbits d" | "nbits n + j = Suc (nbits d)" using nb c(1) by auto
  then show ?thesis
  proof cases
    case 1
    then have k: "int (nbits n) - int (nbits d) = - int j" by simp
    show ?thesis unfolding ilog2_def k using assms(3) by (cases "j = 0") (simp_all add: scale_def Let_def)
  next
    case 2
    then have k: "int (nbits n) - int (nbits d) = 1 - int j" by simp
    show ?thesis
    proof (cases j)
      case 0
      then show ?thesis unfolding ilog2_def k using assms(4) by (simp add: scale_def Let_def)
    next
      case (Suc i)
      then show ?thesis unfolding ilog2_def k using assms(4) by (cases "i = 0") (auto simp: scale_def Let_def)
    qed
  qed
qed

lemma round_even_near: "0 < b \<Longrightarrow> 2 * \<bar>int (round_even a b) * int b - int a\<bar> \<le> int b"
proof -
  assume b: "0 < b"
  have a: "int a = int (a div b) * int b + int (a mod b)"
    by (metis div_mult_mod_eq of_nat_add of_nat_mult)
  have r: "int (a mod b) < int b" using b by simp
  show ?thesis using a r by (auto simp: round_even_def Let_def algebra_simps)
qed

lemma strip2_plus: "0 < m \<Longrightarrow> strip2 m (e + k) = (fst (strip2 m e), snd (strip2 m e) + k)"
proof (induction m e rule: strip2.induct)
  case (1 m e)
  show ?case
  proof (cases "even m")
    case True
    then have "0 < m div 2" using 1(2) by presburger
    then show ?thesis using 1 True by (simp add: strip2.simps [of m] algebra_simps)
  qed (use 1 in \<open>simp add: strip2.simps [of m]\<close>)
qed

lemma fp_round_int_frac: "0 < q \<Longrightarrow> fp_round_int (mkfp False q (- int K)) = mkfp False ((2 * q + 2 ^ K) div (2 * 2 ^ K)) 0"
proof -
  assume q: "0 < q"
  then obtain m t where st: "strip2 q (- int K) = (m, - int K + int t)" "q = m * 2 ^ t" "0 < m"
    using strip2_pow by blast
  have o: "odd m" using strip2_normal [OF st(1)] st(3) by auto
  show ?thesis
  proof (cases "K \<le> t")
    case True
    then obtain u where u: "t = K + u" using le_Suc_ex by blast
    have e: "2 * q + 2 ^ K = (1 + 2 * (m * 2 ^ u)) * 2 ^ K" by (simp add: st(2) u power_add algebra_simps)
    have "(2 * q + 2 ^ K) div (2 * 2 ^ K) = (1 + 2 * (m * 2 ^ u)) div 2" unfolding e by (rule div_mult_mult2) simp
    then have d: "(2 * q + 2 ^ K) div (2 * 2 ^ K) = m * 2 ^ u" by simp
    have "strip2 (m * 2 ^ u) 0 = (m, int u)"
      using strip2_shift [OF st(3), of u "int u"] o st(3) by (simp add: strip2.simps [of m])
    then show ?thesis by (simp add: d mkfp_def st(1) fp_round_int_def u)
  next
    case False
    then obtain u where u: "K = t + u" "0 < u" using less_imp_add_positive [of t K] by auto
    have "2 * q + 2 ^ K = (2 * m + 2 ^ u) * 2 ^ t" "2 * 2 ^ K = (2 * 2 ^ u) * (2 ^ t :: nat)"
      by (simp_all add: st(2) u(1) power_add algebra_simps)
    then have "(2 * q + 2 ^ K) div (2 * 2 ^ K) = (2 * m + 2 ^ u) div (2 * 2 ^ u)" by (simp only: div_mult_mult2) simp
    moreover have "mkfp False q (- int K) = Fin False m (- int u)" using st(1) u by (simp add: mkfp_def)
    ultimately show ?thesis using u(2) by (simp add: fp_round_int_def pow2_frac_def)
  qed
qed

lemma echo100:
  assumes "n \<le> 100"
  defines "x \<equiv> float_of_bits (bits_of_float (fp_div round32 (float_of_int (int n)) (float_of_int 100)))"
  shows "fp_to_int ub (fp_round_int (fp_mul round64 x (double_of_int 100))) = int n" and "fp_pos x \<longleftrightarrow> n \<noteq> 0"
proof -
  have "fp_round_int (fp_mul round64 x (double_of_int 100)) = mkfp False n 0 \<and> (fp_pos x \<longleftrightarrow> n \<noteq> 0)"
  proof (cases "n = 0")
    case True
    then have "x = Fin False 0 0"
      by (simp add: x_def fp_eval bits_of_float_def float_of_bits_def)
    then show ?thesis using True by (simp add: fp_eval)
  next
    case False
    then have n: "0 < n" by simp
    have "\<exists>j \<le> 7. 100 \<le> n * 2 ^ j \<and> n * 2 ^ j < 200"
    proof -
      consider "n = 1" | "2 \<le> n" "n \<le> 3" | "4 \<le> n" "n \<le> 6" | "7 \<le> n" "n \<le> 12" | "13 \<le> n" "n \<le> 24" | "25 \<le> n" "n \<le> 49"
        | "50 \<le> n" "n \<le> 99" | "n = 100" using n assms(1) by linarith
      then show ?thesis
      proof cases
        case 1 then show ?thesis by (intro exI [of _ 7]) simp
      next case 2 then show ?thesis by (intro exI [of _ 6]) simp
      next case 3 then show ?thesis by (intro exI [of _ 5]) simp
      next case 4 then show ?thesis by (intro exI [of _ 4]) simp
      next case 5 then show ?thesis by (intro exI [of _ 3]) simp
      next case 6 then show ?thesis by (intro exI [of _ 2]) simp
      next case 7 then show ?thesis by (intro exI [of _ 1]) simp
      next case 8 then show ?thesis by (intro exI [of _ 0]) simp
      qed
    qed
    then obtain j where j: "j \<le> 7" "100 \<le> n * 2 ^ j" "n * 2 ^ j < 200" by blast
    let ?a = "n * 2 ^ (23 + j)"
    define q where "q = round_even ?a 100"
    have a: "?a = (n * 2 ^ j) * 2 ^ 23" by (simp add: power_add)
    have near: "2 * \<bar>int q * 100 - int ?a\<bar> \<le> 100"
      unfolding q_def using round_even_near [of 100 ?a] by simp
    have "100 * 2 ^ 23 \<le> ?a" "?a \<le> 199 * 2 ^ 23" using j(2,3) unfolding a by simp_all
    then have "int (100 * 2 ^ 23) \<le> int ?a" "int ?a \<le> int (199 * 2 ^ 23)" by (simp_all only: of_nat_le_iff)
    then have b: "838860800 \<le> int ?a" "int ?a \<le> 1669332992" by simp_all
    obtain A where A: "int ?a = A" by blast
    have "8388608 \<le> int q" using b(1) near unfolding A by (cases "int q * 100 \<le> A") simp_all
    moreover have "int q < 16777216" using b(2) near unfolding A by (cases "int q * 100 \<le> A") simp_all
    ultimately have q: "2 ^ 23 \<le> q" "q < 2 ^ 24" by simp_all
    obtain m t where st: "strip2 n 0 = (m, int t)" "n = m * 2 ^ t" "0 < m"
      using strip2_pow [OF n, of 0] by auto
    have f: "float_of_int (int n) = Fin False m (int t)"
      using float_of_int_exact [of "int n"] assms(1) by (simp add: mkfp_def st(1))
    have f100: "float_of_int 100 = Fin False 25 2" "double_of_int 100 = Fin False 25 2"
      using float_of_int_exact [of 100] double_of_int_exact [of 100] by (simp_all add: mkfp_def)
    have d: "fp_div round32 (float_of_int (int n)) (float_of_int 100) = round32 False n 100"
    proof -
      consider "t = 0" | "t = 1" | u where "t = u + 2" by (metis Suc_1 add_2_eq_Suc' less_2_cases not_less_eq_eq le_Suc_ex add.commute not_less)
      then show ?thesis
      proof cases
        case 1
        then show ?thesis unfolding fp_div_def f f100 by (simp add: pow2_frac_def st(2))
      next
        case 2
        have "round32 False (m * 2 ^ 1) (50 * 2 ^ 1) = round32 False m 50"
          unfolding round32_def by (rule fp_round_scale) (use st(3) in simp_all)
        then show ?thesis using 2 unfolding fp_div_def f f100 by (simp add: pow2_frac_def st(2))
      next
        case 3
        have "round32 False (m * 2 ^ u * 2 ^ 2) (25 * 2 ^ 2) = round32 False (m * 2 ^ u) 25"
          unfolding round32_def by (rule fp_round_scale) (use st(3) in simp_all)
        then show ?thesis using 3 unfolding fp_div_def f f100 by (simp add: pow2_frac_def st(2) power_add ac_simps)
      qed
    qed
    have l: "ilog2 n 100 = - int j" using ilog2_fraction [OF n, of 100 j] j(2,3) by simp
    have e: "max (- int j - (int 24 - 1)) (-149) = - int (23 + j)" using j(1) by simp
    have s: "scale n 100 (- int (23 + j)) = (?a, 100)" by (simp add: scale_def nat_add_distrib)
    have nq: "nbits q = 24" using nbits_unique [of 23 q] q by simp
    have r: "round32 False n 100 = mkfp False q (- int (23 + j))"
      using n nq unfolding round32_def fp_round_def
      by (simp only: l e Let_def s prod.case q_def [symmetric]) simp
    have x: "x = mkfp False q (- int (23 + j))"
      unfolding x_def d r using q j(1) by (intro float_bits_normal) simp_all
    have q0: "0 < q" using q(1) by simp
    have "mkfp False q (- int (21 + j)) = (case mkfp False q (- int (23 + j)) of Fin s m e \<Rightarrow> Fin s m (e + 2) | y \<Rightarrow> y)"
      using strip2_plus [OF q0, of "- int (23 + j)" 2] by (simp add: mkfp_def prod.case_eq_if)
    then have "fp_mul round64 x (double_of_int 100) = fp_mul round64 (mkfp False q (- int (21 + j))) (Fin False 25 0)"
      unfolding x f100 by (simp add: fp_mul_def mkfp_def prod.case_eq_if algebra_simps)
    also have "\<dots> = round64 False (q * 25) (2 ^ (21 + j))"
      unfolding round64_def by (rule fp_mul_mkfp [OF q0]) simp
    also have "\<dots> = mkfp False (q * 25) (- int (21 + j))"
      unfolding round64_def using q j(1) by (intro fp_round_exact) simp_all
    finally have p: "fp_round_int (fp_mul round64 x (double_of_int 100)) =
        mkfp False ((2 * (q * 25) + 2 ^ (21 + j)) div (2 * 2 ^ (21 + j))) 0"
      using fp_round_int_frac [of "q * 25" "21 + j"] q0 by simp
    have "(2 * (q * 25) + 2 ^ (21 + j)) div (2 * 2 ^ (21 + j)) = n"
    proof -
      let ?p = "2 ^ (21 + j) :: nat"
      obtain B where B: "int (n * ?p) = B" by blast
      have "?a = 4 * (n * ?p)" by (simp add: power_add)
      then have "int ?a = 4 * int (n * ?p)" by (simp only: of_nat_mult of_nat_numeral)
      then have "int ?a = 4 * B" unfolding B .
      then have "2 * \<bar>int q * 100 - 4 * B\<bar> \<le> 100" using near by simp
      then have c: "2 * (B - int q * 25) \<le> 25" "2 * (int q * 25 - B) \<le> 25"
        by (cases "int q * 25 \<le> B", simp_all)+
      have "(2::nat) ^ 21 \<le> ?p" by (intro power_increasing) simp_all
      then have "int (2 ^ 21) \<le> int ?p" by (simp only: of_nat_le_iff)
      then have P: "2097152 \<le> int ?p" by simp
      have i: "int (n * (2 * ?p)) = 2 * B" "int (2 * (q * 25) + ?p) = 2 * (int q * 25) + int ?p" "int (Suc n * (2 * ?p)) = 2 * B + 2 * int ?p"
        unfolding B [symmetric] by (simp_all add: algebra_simps)
      obtain Q where Q: "int ?p = Q" by blast
      have "2 * B \<le> 2 * (int q * 25) + Q" "2 * (int q * 25) + Q < 2 * B + 2 * Q"
        using c P unfolding Q by simp_all
      then have "int (n * (2 * ?p)) \<le> int (2 * (q * 25) + ?p)" "int (2 * (q * 25) + ?p) < int (Suc n * (2 * ?p))"
        unfolding i Q by simp_all
      then have "n * (2 * ?p) \<le> 2 * (q * 25) + ?p" "2 * (q * 25) + ?p < Suc n * (2 * ?p)"
        by (simp_all only: of_nat_le_iff of_nat_less_iff)
      then show ?thesis by (intro div_nat_eqI) (simp_all only: mult.commute)
    qed
    moreover have "fp_pos x"
      using strip2_pow [OF q0, of "- int (23 + j)"] by (auto simp: x mkfp_def fp_pos_def)
    ultimately show ?thesis using p n by simp
  qed
  then have *: "fp_round_int (fp_mul round64 x (double_of_int 100)) = mkfp False n 0" "fp_pos x \<longleftrightarrow> n \<noteq> 0" by simp_all
  show "fp_to_int ub (fp_round_int (fp_mul round64 x (double_of_int 100))) = int n"
    using assms(1) fp_trunc_mkfp [of False n] by (simp add: * fp_to_int_def)
  show "fp_pos x \<longleftrightarrow> n \<noteq> 0" by (rule *)
qed

lemma float_of_double_int: "\<bar>i\<bar> < 2 ^ 24 \<Longrightarrow> float_of_double (double_of_int i) = float_of_int i"
proof -
  assume i: "\<bar>i\<bar> < 2 ^ 24"
  obtain m e where m: "mkfp (i < 0) (nat \<bar>i\<bar>) 0 = Fin (i < 0) m e" "0 \<le> e" "nat \<bar>i\<bar> = m * 2 ^ nat e"
    using mkfp_nat by blast
  have d: "double_of_int i = Fin (i < 0) m e" using double_of_int_exact [of i] i m(1) by simp
  show ?thesis
    by (simp add: d float_of_double_def pow2_frac_def m(2) m(3) [symmetric] float_of_int_def)
qed

end
