(* ===== verification/Platform.thy ===== *)
theory Platform
  imports Fp
begin

text \<open>
  What the components take from Qt and from homed-common, neither of which is under src/.

  \<^item> Values: \<open>variant\<close> is \<^verbatim>\<open>QVariant\<close>, \<open>json\<close> is \<^verbatim>\<open>QJsonValue\<close> with its documented accessors (an
    accessor of the wrong type returns the default).
  \<^item> Functions with no definition here are the fields of a record \<open>env\<close>, an argument of every
    definition that calls them: UTF-8 and base64 conversion, the Unicode character classes,
    \<^verbatim>\<open>mqttSafe\<close>, the conversions of a \<^verbatim>\<open>QVariant\<close> from another type, \<^verbatim>\<open>std::pow(10, n)\<close>, and the
    result of an out-of-range float-to-int cast.
\<close>

subsection \<open>Values\<close>

datatype variant =
    VInvalid
  | VBool bool
  | VInt int
  | VUInt quint32
  | VULong quint64
  | VDouble fp
  | VStr string
  | VStrList "string list"
  | VList "variant list"
  | VMap "(string \<times> variant) list"

datatype json =
    JUndefined
  | JNull
  | JBool bool
  | JDouble fp
  | JString string
  | JArray "json list"
  | JObject "(string \<times> json) list"

type_synonym variant_map = "(string, variant) qmap"
type_synonym json_object = "(string, json) qmap"

definition jv :: "json_object \<Rightarrow> string \<Rightarrow> json" where
  "jv obj key = qm_value obj key JUndefined"

definition j_toString :: "json \<Rightarrow> string" where
  "j_toString j = (case j of JString s \<Rightarrow> s | _ \<Rightarrow> [])"

definition j_toBool :: "bool \<Rightarrow> json \<Rightarrow> bool" where
  "j_toBool dflt j = (case j of JBool b \<Rightarrow> b | _ \<Rightarrow> dflt)"

definition j_toDouble :: "fp \<Rightarrow> json \<Rightarrow> fp" where
  "j_toDouble dflt j = (case j of JDouble x \<Rightarrow> x | _ \<Rightarrow> dflt)"

text \<open>\<^verbatim>\<open>toInt\<close>: the default unless the value is a whole number in the range of \<^verbatim>\<open>int\<close>.\<close>

definition j_toInt :: "int \<Rightarrow> json \<Rightarrow> int" where
  "j_toInt dflt j =
     (case j of
        JDouble (Fin s m e) \<Rightarrow>
          (if 0 \<le> e then fp_to_int (\<lambda>_. dflt) (Fin s m e) else dflt)
      | _ \<Rightarrow> dflt)"

definition j_toArray :: "json \<Rightarrow> json list" where
  "j_toArray j = (case j of JArray xs \<Rightarrow> xs | _ \<Rightarrow> [])"

definition j_toObject :: "json \<Rightarrow> json_object" where
  "j_toObject j = (case j of JObject m \<Rightarrow> m | _ \<Rightarrow> [])"

lemmas j_accessors = jv_def j_toString_def j_toBool_def j_toDouble_def j_toInt_def j_toArray_def j_toObject_def

subsection \<open>Functions\<close>

record env =
  from_utf8 :: "bytes \<Rightarrow> string"
  to_utf8 :: "string \<Rightarrow> bytes"
  from_base64 :: "bytes \<Rightarrow> bytes"
  to_base64 :: "bytes \<Rightarrow> bytes"
  isLetterOrNumber :: "char \<Rightarrow> bool"
  char_toUpper :: "char \<Rightarrow> char"
  char_toLower :: "char \<Rightarrow> char"
  string_toLower :: "string \<Rightarrow> string"
  mqttSafe :: "string \<Rightarrow> string"
  convert_toString :: "variant \<Rightarrow> string"
  convert_toFloat :: "variant \<Rightarrow> fp"
  convert_toList :: "variant \<Rightarrow> variant list"
  pow10 :: "int \<Rightarrow> fp"
  cast_ub :: "fp \<Rightarrow> int"

text \<open>\<^verbatim>\<open>QVariant\<close>'s own type converts to itself; an invalid variant converts to the type's default.\<close>

definition v_toString :: "env \<Rightarrow> variant \<Rightarrow> string" where
  "v_toString E v = (case v of VStr s \<Rightarrow> s | VInvalid \<Rightarrow> [] | _ \<Rightarrow> convert_toString E v)"

definition v_toFloat :: "env \<Rightarrow> variant \<Rightarrow> fp" where
  "v_toFloat E v =
     (case v of VDouble x \<Rightarrow> float_of_double x | VInt i \<Rightarrow> float_of_int i | VInvalid \<Rightarrow> fp_zero
      | _ \<Rightarrow> convert_toFloat E v)"

definition v_toList :: "env \<Rightarrow> variant \<Rightarrow> variant list" where
  "v_toList E v = (case v of VList xs \<Rightarrow> xs | VInvalid \<Rightarrow> [] | _ \<Rightarrow> convert_toList E v)"

text \<open>
  Conversions of values the code itself stored with that type (the entity's key, its flags, its
  decimals and its option maps).
\<close>

definition v_toUInt :: "variant \<Rightarrow> quint32" where
  "v_toUInt v = (case v of VUInt k \<Rightarrow> k | VULong k \<Rightarrow> ucast k | VInt i \<Rightarrow> word_of_int i | _ \<Rightarrow> 0)"

definition v_toInt :: "variant \<Rightarrow> int" where
  "v_toInt v = (case v of VInt i \<Rightarrow> i | VUInt k \<Rightarrow> sint k | VBool b \<Rightarrow> of_bool b | _ \<Rightarrow> 0)"

definition v_toBool :: "variant \<Rightarrow> bool" where
  "v_toBool v = (case v of VBool b \<Rightarrow> b | VInt i \<Rightarrow> i \<noteq> 0 | VUInt k \<Rightarrow> k \<noteq> 0 | _ \<Rightarrow> False)"

definition v_toDouble :: "variant \<Rightarrow> fp" where
  "v_toDouble v = (case v of VDouble x \<Rightarrow> x | VInt i \<Rightarrow> double_of_int i | _ \<Rightarrow> fp_zero)"

definition v_toMap :: "variant \<Rightarrow> variant_map" where
  "v_toMap v = (case v of VMap m \<Rightarrow> m | _ \<Rightarrow> [])"

definition v_toStringList :: "variant \<Rightarrow> string list" where
  "v_toStringList v = (case v of VStrList xs \<Rightarrow> xs | _ \<Rightarrow> [])"

definition vm :: "variant_map \<Rightarrow> string \<Rightarrow> variant" where
  "vm m k = qm_value m k VInvalid"

lemmas v_conversions = v_toString_def v_toFloat_def v_toList_def v_toUInt_def v_toInt_def v_toBool_def
  v_toDouble_def v_toMap_def v_toStringList_def vm_def

lemma vm_insert [simp]: "vm (qm_insert k v m) a = (if a = k then v else vm m a)"
  by (simp add: vm_def)

lemma vm_remove [simp]: "vm (qm_remove k m) a = (if a = k then VInvalid else vm m a)"
  by (simp add: vm_def)

lemma vm_Nil [simp]: "vm [] a = VInvalid"
  by (simp add: vm_def)

lemma v_simps [simp]:
  "v_toString E (VStr s) = s" "v_toString E VInvalid = []" "v_toUInt (VUInt k) = k" "v_toUInt VInvalid = 0"
  "v_toInt (VInt i) = i" "v_toBool (VBool b) = b" "v_toBool VInvalid = False" "v_toDouble (VDouble x) = x"
  "v_toDouble VInvalid = fp_zero" "v_toMap (VMap m) = m" "v_toMap VInvalid = []" "v_toStringList (VStrList ss) = ss"
  "v_toList E (VList xs) = xs" "v_toFloat E (VInt i) = float_of_int i"
  "v_toFloat E (VDouble x) = float_of_double x"
  by (simp_all add: v_conversions)

text \<open>A \<^verbatim>\<open>QVariantMap\<close> initialiser list: insertions in order.\<close>

definition vmap :: "(string \<times> variant) list \<Rightarrow> variant_map" where
  "vmap kvs = put_all qm_insert kvs []"

subsection \<open>\<^verbatim>\<open>QString::number\<close>\<close>

fun nat_digits :: "nat \<Rightarrow> string" where
  "nat_digits n = (if n < 10 then [char_of (48 + n)] else nat_digits (n div 10) @ [char_of (48 + n mod 10)])"

declare nat_digits.simps [simp del]

definition qs_number :: "int \<Rightarrow> string" where
  "qs_number i = (if i < 0 then CHR ''-'' # nat_digits (nat (- i)) else nat_digits (nat i))"

definition is_digit :: "char \<Rightarrow> bool" where
  "is_digit c = (48 \<le> (of_char c :: nat) \<and> (of_char c :: nat) \<le> 57)"

lemma is_digit_char_of: "(n :: nat) < 10 \<Longrightarrow> is_digit (char_of (48 + n))"
  by (simp add: is_digit_def)

lemma nat_digits_digits: "list_all is_digit (nat_digits n)"
proof (induction n rule: nat_digits.induct)
  case (1 n)
  then show ?case by (subst nat_digits.simps) (simp add: is_digit_char_of)
qed

lemma nat_digits_ne_Nil [simp]: "nat_digits n \<noteq> []"
  by (subst nat_digits.simps) simp

definition digits_value :: "string \<Rightarrow> nat" where
  "digits_value s = foldl (\<lambda>v c. 10 * v + (of_char c - 48)) 0 s"

lemma digits_value_nat_digits: "digits_value (nat_digits n) = n"
proof (induction n rule: nat_digits.induct)
  case (1 n)
  show ?case
  proof (cases "n < 10")
    case True
    then show ?thesis by (subst nat_digits.simps) (simp add: digits_value_def)
  next
    case False
    have "digits_value (nat_digits n) = 10 * digits_value (nat_digits (n div 10)) + n mod 10"
      using False by (subst nat_digits.simps) (simp add: digits_value_def)
    with 1 False show ?thesis by simp
  qed
qed

lemma nat_digits_inj: "nat_digits m = nat_digits n \<Longrightarrow> m = n"
  by (metis digits_value_nat_digits)

end
