(* ===== verification/Names.thy ===== *)
theory Names
  imports Platform
begin

text \<open>
  The name tables and name mangling at the top of src/esphome.cpp (sub-device addresses, objectIds,
  climate modes, fan modes and presets) and \<^verbatim>\<open>haSafeId\<close> of src/controller.cpp.
\<close>

subsection \<open>Mangling\<close>

definition subDeviceAddressSuffix :: "env \<Rightarrow> string \<Rightarrow> string" where
  "subDeviceAddressSuffix E name = map (\<lambda>c. if c = CHR '' '' then CHR ''_'' else c) (mqttSafe E name)"

text \<open>The loop of \<^verbatim>\<open>camelCase\<close>: \<open>result\<close> and \<open>capitalizeNext\<close> are its variables.\<close>

fun camelCase_loop :: "env \<Rightarrow> string \<Rightarrow> string \<Rightarrow> bool \<Rightarrow> string" where
  "camelCase_loop E [] result capitalizeNext = result"
| "camelCase_loop E (c # cs) result capitalizeNext =
     (if \<not> isLetterOrNumber E c then camelCase_loop E cs result True
      else camelCase_loop E cs
             (result @ [if capitalizeNext \<and> result \<noteq> [] then char_toUpper E c else char_toLower E c]) False)"

definition camelCase :: "env \<Rightarrow> string \<Rightarrow> string" where
  "camelCase E text = camelCase_loop E text [] False"

definition haSafeId :: "env \<Rightarrow> string \<Rightarrow> string" where
  "haSafeId E value =
     map (\<lambda>c. if \<not> isLetterOrNumber E c \<and> c \<noteq> CHR ''_'' \<and> c \<noteq> CHR ''-'' then CHR ''_'' else c) value"

subsection \<open>Climate tables\<close>

definition climateModeName :: "quint64 \<Rightarrow> string" where
  "climateModeName v =
     (if v = 0 then ''off'' else if v = 1 then ''heat_cool'' else if v = 2 then ''cool''
      else if v = 3 then ''heat'' else if v = 4 then ''fan'' else if v = 5 then ''dry''
      else if v = 6 then ''auto'' else [])"

definition climateFanModeName :: "quint64 \<Rightarrow> string" where
  "climateFanModeName v =
     (if v = 0 then ''on'' else if v = 1 then ''off'' else if v = 2 then ''auto''
      else if v = 3 then ''low'' else if v = 4 then ''medium'' else if v = 5 then ''high''
      else if v = 6 then ''middle'' else if v = 7 then ''focus'' else if v = 8 then ''diffuse''
      else if v = 9 then ''quiet'' else [])"

definition climatePresetName :: "quint64 \<Rightarrow> string" where
  "climatePresetName v =
     (if v = 0 then ''none'' else if v = 1 then ''home'' else if v = 2 then ''away''
      else if v = 3 then ''boost'' else if v = 4 then ''comfort'' else if v = 5 then ''eco''
      else if v = 6 then ''sleep'' else if v = 7 then ''activity'' else [])"

definition climateActionRunning :: "quint64 \<Rightarrow> bool" where
  "climateActionRunning v = (v \<noteq> 0 \<and> v \<noteq> 4)"

definition climateModeValue :: "string \<Rightarrow> int" where
  "climateModeValue name =
     index_of name [''off'', ''heat_cool'', ''cool'', ''heat'', ''fan'', ''dry'', ''auto'']"

definition climateFanModeValue :: "string \<Rightarrow> int" where
  "climateFanModeValue name =
     index_of name [''on'', ''off'', ''auto'', ''low'', ''medium'', ''high'', ''middle'', ''focus'', ''diffuse'', ''quiet'']"

definition climatePresetValue :: "string \<Rightarrow> int" where
  "climatePresetValue name =
     index_of name [''none'', ''home'', ''away'', ''boost'', ''comfort'', ''eco'', ''sleep'', ''activity'']"

subsection \<open>The tables agree\<close>

text \<open>
  A name table: a partial naming of numbers, and the search back. The code keeps three of them, each
  as a \<^verbatim>\<open>switch\<close> and a list that must stay in step.
\<close>

locale name_table =
  fixes nm :: "quint64 \<Rightarrow> string" and val :: "string \<Rightarrow> int" and size :: nat
  assumes value_name: "unat v < size \<Longrightarrow> val (nm v) = int (unat v)"
    and name_value: "0 \<le> val s \<Longrightarrow> nm (word_of_int (val s)) = s \<and> s \<noteq> []"
    and name_none: "size \<le> unat v \<Longrightarrow> nm v = []"
    and value_range: "- 1 \<le> val s \<and> val s < int size"
begin

lemma name_ne_Nil_iff: "nm v \<noteq> [] \<longleftrightarrow> unat v < size"
proof
  show "nm v \<noteq> [] \<Longrightarrow> unat v < size" using name_none not_less by blast
  assume "unat v < size"
  then have "0 \<le> val (nm v)" by (simp add: value_name)
  then show "nm v \<noteq> []" using name_value by blast
qed

lemma name_inj: "unat v < size \<Longrightarrow> nm v = nm w \<Longrightarrow> v = w"
proof -
  assume v: "unat v < size" and eq: "nm v = nm w"
  then have w: "unat w < size" by (metis name_ne_Nil_iff)
  have "int (unat v) = int (unat w)" using value_name [OF v] value_name [OF w] eq by simp
  then show ?thesis by (simp add: word_unat_eq_iff del: of_nat_unat)
qed

lemma value_custom: "val s = - 1 \<longleftrightarrow> (\<nexists>v. unat v < size \<and> nm v = s)"
proof
  assume "val s = - 1"
  then show "\<nexists>v. unat v < size \<and> nm v = s"
    by (metis value_name of_nat_0_le_iff neg_0_le_iff_le not_one_le_zero)
next
  assume none: "\<nexists>v. unat v < size \<and> nm v = s"
  show "val s = - 1"
  proof (rule ccontr)
    assume "val s \<noteq> - 1"
    then have "0 \<le> val s" using value_range [of s] by simp
    then have "nm (word_of_int (val s)) = s" "s \<noteq> []" using name_value by auto
    then show False using none name_ne_Nil_iff by metis
  qed
qed

end

lemma unat_less_cases:
  assumes "unat (v :: quint64) < n"
  shows "v \<in> word_of_nat ` {0..<n}"
proof (rule image_eqI)
  show "v = word_of_nat (unat v)" by simp
qed (use assms in simp)

interpretation mode: name_table climateModeName climateModeValue 7
proof
  fix v :: quint64 and s
  show "unat v < 7 \<Longrightarrow> climateModeValue (climateModeName v) = int (unat v)"
    by (drule unat_less_cases) (auto simp: climateModeName_def climateModeValue_def atLeastLessThan_nat_numeral Let_def)
  show "0 \<le> climateModeValue s \<Longrightarrow> climateModeName (word_of_int (climateModeValue s)) = s \<and> s \<noteq> []"
    by (auto simp: climateModeName_def climateModeValue_def Let_def split: if_splits)
  show "7 \<le> unat v \<Longrightarrow> climateModeName v = []"
    by (auto simp: climateModeName_def)
  show "- 1 \<le> climateModeValue s \<and> climateModeValue s < int 7"
    by (auto simp: climateModeValue_def Let_def)
qed

interpretation fan: name_table climateFanModeName climateFanModeValue 10
proof
  fix v :: quint64 and s
  show "unat v < 10 \<Longrightarrow> climateFanModeValue (climateFanModeName v) = int (unat v)"
    by (drule unat_less_cases) (auto simp: climateFanModeName_def climateFanModeValue_def atLeastLessThan_nat_numeral Let_def)
  show "0 \<le> climateFanModeValue s \<Longrightarrow> climateFanModeName (word_of_int (climateFanModeValue s)) = s \<and> s \<noteq> []"
    by (auto simp: climateFanModeName_def climateFanModeValue_def Let_def split: if_splits)
  show "10 \<le> unat v \<Longrightarrow> climateFanModeName v = []"
    by (auto simp: climateFanModeName_def)
  show "- 1 \<le> climateFanModeValue s \<and> climateFanModeValue s < int 10"
    by (auto simp: climateFanModeValue_def Let_def)
qed

interpretation preset: name_table climatePresetName climatePresetValue 8
proof
  fix v :: quint64 and s
  show "unat v < 8 \<Longrightarrow> climatePresetValue (climatePresetName v) = int (unat v)"
    by (drule unat_less_cases) (auto simp: climatePresetName_def climatePresetValue_def atLeastLessThan_nat_numeral Let_def)
  show "0 \<le> climatePresetValue s \<Longrightarrow> climatePresetName (word_of_int (climatePresetValue s)) = s \<and> s \<noteq> []"
    by (auto simp: climatePresetName_def climatePresetValue_def Let_def split: if_splits)
  show "8 \<le> unat v \<Longrightarrow> climatePresetName v = []"
    by (auto simp: climatePresetName_def)
  show "- 1 \<le> climatePresetValue s \<and> climatePresetValue s < int 8"
    by (auto simp: climatePresetValue_def Let_def)
qed

subsection \<open>objectIds have no separator\<close>

lemma camelCase_loop_chars:
  assumes "\<And>c. isLetterOrNumber E c \<Longrightarrow> P (char_toUpper E c) \<and> P (char_toLower E c)"
  shows "list_all P result \<Longrightarrow> list_all P (camelCase_loop E cs result cap)"
  using assms by (induction E cs result cap rule: camelCase_loop.induct) auto

lemma camelCase_chars:
  assumes "\<And>c. isLetterOrNumber E c \<Longrightarrow> P (char_toUpper E c) \<and> P (char_toLower E c)"
  shows "list_all P (camelCase E text)"
  using camelCase_loop_chars [OF assms] by (simp add: camelCase_def)

lemma camelCase_loop_length:
  "length (camelCase_loop E cs result cap) = length result + length (filter (isLetterOrNumber E) cs)"
  by (induction E cs result cap rule: camelCase_loop.induct) auto

subsection \<open>Properties\<close>

text \<open>
  The three climate tables and their reverse lists agree: every value of the wire enumeration
  that has a name is found again by that name, every other string is a custom name, and a value
  outside the enumeration has no name.
\<close>

theorem climate_tables:
  "climateModeValue (climateModeName v) = (if unat v < 7 then int (unat v) else - 1) \<and>
   climateFanModeValue (climateFanModeName v) = (if unat v < 10 then int (unat v) else - 1) \<and>
   climatePresetValue (climatePresetName v) = (if unat v < 8 then int (unat v) else - 1) \<and>
   (climateModeValue s = - 1 \<longleftrightarrow> (\<nexists>v. unat v < 7 \<and> climateModeName v = s)) \<and>
   (climateFanModeValue s = - 1 \<longleftrightarrow> (\<nexists>v. unat v < 10 \<and> climateFanModeName v = s)) \<and>
   (climatePresetValue s = - 1 \<longleftrightarrow> (\<nexists>v. unat v < 8 \<and> climatePresetName v = s))"
  using mode.value_name [of v] fan.value_name [of v] preset.value_name [of v]
    mode.name_none [of v] fan.name_none [of v] preset.name_none [of v]
    mode.value_custom [of s] fan.value_custom [of s] preset.value_custom [of s]
  by (auto simp: climateModeValue_def climateFanModeValue_def climatePresetValue_def)

text \<open>
  An objectId built by \<^verbatim>\<open>camelCase\<close> holds letters and digits only - no underscore, space or other
  separator - when upper and lower case keep a character a letter or digit; and it drops nothing but
  separators.
\<close>

theorem camelCase_no_separator:
  assumes "\<And>c. isLetterOrNumber E c \<Longrightarrow>
      isLetterOrNumber E (char_toUpper E c) \<and> isLetterOrNumber E (char_toLower E c)"
    and "\<not> isLetterOrNumber E CHR ''_''"
  shows "CHR ''_'' \<notin> set (camelCase E text) \<and>
    length (camelCase E text) = length (filter (isLetterOrNumber E) text)"
proof -
  have "list_all (isLetterOrNumber E) (camelCase E text)"
    by (rule camelCase_chars) (rule assms(1))
  then show ?thesis
    using assms(2) by (auto simp: list_all_iff camelCase_def camelCase_loop_length)
qed

text \<open>An environment for witnesses: ASCII text.\<close>

definition ascii_upper :: "char \<Rightarrow> char" where
  "ascii_upper c = (let n = of_char c :: nat in if 97 \<le> n \<and> n \<le> 122 then char_of (n - 32) else c)"

definition ascii_lower :: "char \<Rightarrow> char" where
  "ascii_lower c = (let n = of_char c :: nat in if 65 \<le> n \<and> n \<le> 90 then char_of (n + 32) else c)"

definition ascii_alnum :: "char \<Rightarrow> bool" where
  "ascii_alnum c =
     (let n = of_char c :: nat in 48 \<le> n \<and> n \<le> 57 \<or> 65 \<le> n \<and> n \<le> 90 \<or> 97 \<le> n \<and> n \<le> 122)"

definition ascii_env :: env where
  "ascii_env =
     \<lparr>from_utf8 = map (\<lambda>b. char_of (unat b)), to_utf8 = map (\<lambda>c. word_of_nat (of_char c)),
      from_base64 = (\<lambda>b. b), to_base64 = (\<lambda>b. b),
      isLetterOrNumber = ascii_alnum, char_toUpper = ascii_upper, char_toLower = ascii_lower,
      string_toLower = map ascii_lower, mqttSafe = (\<lambda>s. s),
      convert_toString = (\<lambda>v. case v of VBool b \<Rightarrow> if b then ''true'' else ''false'' | VInt i \<Rightarrow> qs_number i | _ \<Rightarrow> []),
      convert_toFloat = (\<lambda>v. fp_zero), convert_toList = (\<lambda>v. []),
      pow10 = (\<lambda>n. double_of_int (10 ^ nat n)), cast_ub = (\<lambda>_. - (2 ^ 31))\<rparr>"

lemma ascii_env_case:
  "isLetterOrNumber ascii_env c \<Longrightarrow>
     isLetterOrNumber ascii_env (char_toUpper ascii_env c) \<and> isLetterOrNumber ascii_env (char_toLower ascii_env c)"
  by (auto simp: ascii_env_def ascii_alnum_def ascii_upper_def ascii_lower_def Let_def)

lemma camelCase_no_separator_witness:
  "CHR ''_'' \<notin> set (camelCase ascii_env ''Back Side_Temp'') \<and> camelCase ascii_env ''Back Side_Temp'' = ''backSideTemp''"
proof -
  have "\<not> isLetterOrNumber ascii_env CHR ''_''"
    by (simp add: ascii_env_def ascii_alnum_def)
  from camelCase_no_separator [OF ascii_env_case this, of "''Back Side_Temp''"] show ?thesis
    by (simp add: camelCase_def ascii_env_def ascii_alnum_def ascii_upper_def ascii_lower_def char_of_def bit_0)
qed

end
