(* ===== verification/Device.thy ===== *)
theory Device
  imports Names
begin

text \<open>
  src/device.h and the lookups of src/device.cpp: endpoints, devices and the device list.

  \<^verbatim>\<open>Device\<close> is a shared pointer: the list, a connection's \<^verbatim>\<open>m_device\<close> and an endpoint's parent can be
  the same object, and code holding one sees what code holding another changed. The model keeps the
  objects in a store \<open>objs\<close>, a list that only grows; a \<open>dref\<close> is an index of it, and the device list
  is a list of such references.

  The fields and accessors \<^verbatim>\<open>AbstractDeviceObject\<close> and \<^verbatim>\<open>AbstractEndpointObject\<close> bring from
  homed-common are fields of the records; the flags a new object starts with are an argument.
\<close>

datatype availability = Unknown | Online | Offline

text \<open>The exposes of homed-common the service creates, with the name argument where one is given.\<close>

datatype expose =
    SwitchObject
  | LockObject
  | LightObject
  | CoverObject
  | ThermostatObject
  | BinaryObject string
  | SensorObject string
  | SelectObject string
  | NumberObject string
  | ButtonObject "string option"
  | ExposeObject string

record EndpointObject =
  ep_id :: quint8
  ep_meta :: variant_map
  ep_exposes :: "expose list"
  ep_state :: variant_map

record DeviceObject =
  d_name :: string
  d_host :: string
  d_port :: quint16
  d_encryptionKey :: bytes
  d_esphomeVersion :: string
  d_lastSeen :: int
  d_publishedEndpoints :: "string list"
  d_specialSlots :: "(int, string) qmap"
  d_parentAddress :: string
  d_active :: bool
  d_discovery :: bool
  d_cloud :: bool
  d_availability :: availability
  d_manufacturerName :: string
  d_modelName :: string
  d_endpoints :: "(quint8, EndpointObject) qmap"
  d_options :: variant_map

text \<open>The defaults of \<^verbatim>\<open>AbstractDeviceObject\<close>: active, discovery, cloud.\<close>

record device_defaults =
  def_active :: bool
  def_discovery :: bool
  def_cloud :: bool

definition new_device :: "device_defaults \<Rightarrow> string \<Rightarrow> string \<Rightarrow> quint16 \<Rightarrow> bytes \<Rightarrow> DeviceObject" where
  "new_device D name host port key =
     \<lparr>d_name = name, d_host = host, d_port = port, d_encryptionKey = key, d_esphomeVersion = [],
      d_lastSeen = 0, d_publishedEndpoints = [], d_specialSlots = [], d_parentAddress = [],
      d_active = def_active D, d_discovery = def_discovery D, d_cloud = def_cloud D,
      d_availability = Unknown, d_manufacturerName = [], d_modelName = [],
      d_endpoints = [], d_options = []\<rparr>"

definition address :: "env \<Rightarrow> DeviceObject \<Rightarrow> string" where
  "address E d = mqttSafe E (d_host d)"

definition setState :: "string \<Rightarrow> variant \<Rightarrow> EndpointObject \<Rightarrow> EndpointObject" where
  "setState k v ep = ep\<lparr>ep_state := qm_insert k v (ep_state ep)\<rparr>"

definition new_endpoint :: "quint8 \<Rightarrow> EndpointObject" where
  "new_endpoint i = \<lparr>ep_id = i, ep_meta = [], ep_exposes = [], ep_state = []\<rparr>"

subsection \<open>The store and the list\<close>

type_synonym dref = nat

record DeviceList =
  objs :: "DeviceObject list"
  dlist :: "dref list"
  m_names :: bool
  m_sync :: bool
  m_timer :: bool
  m_file :: "json option"

text \<open>\<open>m_timer\<close>: the write timer is running; \<open>m_file\<close>: the JSON document of the database file, if any.\<close>

definition DeviceList_new :: "bool \<Rightarrow> json option \<Rightarrow> DeviceList" where
  "DeviceList_new names file =
     \<lparr>objs = [], dlist = [], m_names = names, m_sync = False, m_timer = False, m_file = file\<rparr>"

definition dev :: "DeviceList \<Rightarrow> dref \<Rightarrow> DeviceObject" where
  "dev L r = objs L ! r"

definition upd_dev :: "dref \<Rightarrow> (DeviceObject \<Rightarrow> DeviceObject) \<Rightarrow> DeviceList \<Rightarrow> DeviceList" where
  "upd_dev r f L = L\<lparr>objs := (objs L)[r := f (objs L ! r)]\<rparr>"

definition alloc_dev :: "DeviceObject \<Rightarrow> DeviceList \<Rightarrow> dref \<times> DeviceList" where
  "alloc_dev d L = (length (objs L), L\<lparr>objs := objs L @ [d]\<rparr>)"

definition append_dev :: "dref \<Rightarrow> DeviceList \<Rightarrow> DeviceList" where
  "append_dev r L = L\<lparr>dlist := dlist L @ [r]\<rparr>"

text \<open>The linear searches; a null \<^verbatim>\<open>Device\<close> is \<open>None\<close>. \<^verbatim>\<open>byName\<close> also reports the index.\<close>

fun find_index :: "('a \<Rightarrow> bool) \<Rightarrow> 'a list \<Rightarrow> nat option" where
  "find_index P [] = None"
| "find_index P (x # xs) = (if P x then Some 0 else map_option Suc (find_index P xs))"

definition byName_index :: "DeviceList \<Rightarrow> string \<Rightarrow> nat option" where
  "byName_index L name = find_index (\<lambda>r. d_name (dev L r) = name) (dlist L)"

definition byName :: "DeviceList \<Rightarrow> string \<Rightarrow> dref option" where
  "byName L name = map_option (\<lambda>i. dlist L ! i) (byName_index L name)"

definition byHost :: "DeviceList \<Rightarrow> string \<Rightarrow> dref option" where
  "byHost L host = map_option (\<lambda>i. dlist L ! i) (find_index (\<lambda>r. d_host (dev L r) = host) (dlist L))"

subsection \<open>Well-formed lists\<close>

text \<open>Every reference is allocated, no object is listed twice, and no two listed devices share a host.\<close>

definition dl_inv :: "DeviceList \<Rightarrow> bool" where
  "dl_inv L = ((\<forall>r \<in> set (dlist L). r < length (objs L)) \<and> distinct (map (\<lambda>r. d_host (dev L r)) (dlist L)))"

lemma find_index_Some:
  "find_index P xs = Some i \<Longrightarrow> i < length xs \<and> P (xs ! i) \<and> (\<forall>j < i. \<not> P (xs ! j))"
proof (induction xs arbitrary: i)
  case (Cons x xs)
  show ?case
  proof (cases "P x")
    case False
    with Cons.prems obtain j where j: "find_index P xs = Some j" "i = Suc j" by auto
    with Cons.IH [OF j(1)] False show ?thesis
      by (auto simp: less_Suc_eq_0_disj)
  qed (use Cons.prems in auto)
qed simp

lemma find_index_None: "find_index P xs = None \<longleftrightarrow> (\<forall>x \<in> set xs. \<not> P x)"
  by (induction xs) auto

lemma byHost_Some: "byHost L host = Some r \<Longrightarrow> r \<in> set (dlist L) \<and> d_host (dev L r) = host"
  by (auto simp: byHost_def dest!: find_index_Some)

lemma byName_Some: "byName L name = Some r \<Longrightarrow> r \<in> set (dlist L) \<and> d_name (dev L r) = name"
  by (auto simp: byName_def byName_index_def dest!: find_index_Some)

lemma byHost_None: "byHost L host = None \<longleftrightarrow> host \<notin> (\<lambda>r. d_host (dev L r)) ` set (dlist L)"
  by (auto simp: byHost_def find_index_None)

lemma byName_None: "byName L name = None \<longleftrightarrow> name \<notin> (\<lambda>r. d_name (dev L r)) ` set (dlist L)"
  by (auto simp: byName_def byName_index_def find_index_None)

lemma dl_inv_distinct: "dl_inv L \<Longrightarrow> distinct (dlist L)"
  by (simp add: dl_inv_def distinct_map)

lemma byHost_unique:
  assumes "dl_inv L" "r \<in> set (dlist L)"
  shows "byHost L (d_host (dev L r)) = Some r"
proof (cases "byHost L (d_host (dev L r))")
  case None
  then show ?thesis using assms by (simp add: byHost_None)
next
  case (Some s)
  then have "s \<in> set (dlist L)" "d_host (dev L s) = d_host (dev L r)"
    by (auto dest: byHost_Some)
  then show ?thesis using assms Some by (auto simp: dl_inv_def distinct_map dest: inj_onD)
qed

lemma dev_upd_dev [simp]:
  "r < length (objs L) \<Longrightarrow> dev (upd_dev r f L) s = (if s = r then f (dev L r) else dev L s)"
  by (simp add: dev_def upd_dev_def nth_list_update)

lemma upd_dev_simps [simp]:
  "dlist (upd_dev r f L) = dlist L" "length (objs (upd_dev r f L)) = length (objs L)"
  "m_names (upd_dev r f L) = m_names L" "m_timer (upd_dev r f L) = m_timer L" "m_file (upd_dev r f L) = m_file L"
  by (simp_all add: upd_dev_def)

lemma upd_dev_host:
  assumes "\<And>d. d_host (f d) = d_host d"
  shows "d_host (dev (upd_dev r f L) s) = d_host (dev L s)"
  using assms by (cases "r < length (objs L)") (simp_all add: dev_def upd_dev_def list_update_beyond nth_list_update)

lemma dl_inv_upd_dev:
  "(\<And>d. d_host (f d) = d_host d) \<Longrightarrow> dl_inv L \<Longrightarrow> dl_inv (upd_dev r f L)"
  by (simp add: dl_inv_def upd_dev_host)

lemma byHost_upd_dev:
  "(\<And>d. d_host (f d) = d_host d) \<Longrightarrow> byHost (upd_dev r f L) h = byHost L h"
  by (simp add: byHost_def upd_dev_host)

lemma dev_alloc_append [simp]:
  "dev (append_dev s L) r = dev L r"
  "r < length (objs L) \<Longrightarrow> dev (snd (alloc_dev d L)) r = dev L r"
  "dev (snd (alloc_dev d L)) (length (objs L)) = d"
  by (simp_all add: dev_def append_dev_def alloc_dev_def nth_append)

lemma alloc_dev_simps [simp]:
  "fst (alloc_dev d L) = length (objs L)" "dlist (snd (alloc_dev d L)) = dlist L"
  "length (objs (snd (alloc_dev d L))) = Suc (length (objs L))"
  by (simp_all add: alloc_dev_def)

lemma append_dev_simps [simp]:
  "dlist (append_dev r L) = dlist L @ [r]" "objs (append_dev r L) = objs L"
  by (simp_all add: append_dev_def)

lemma dl_inv_add:
  assumes "dl_inv L" "byHost L (d_host d) = None"
  shows "dl_inv (append_dev (length (objs L)) (snd (alloc_dev d L)))"
proof -
  have same: "map (\<lambda>r. d_host (dev (snd (alloc_dev d L)) r)) (dlist L) = map (\<lambda>r. d_host (dev L r)) (dlist L)"
    using assms(1) by (auto simp: dl_inv_def)
  have "distinct (map (\<lambda>r. d_host (dev (snd (alloc_dev d L)) r)) (dlist L) @ [d_host d])"
    unfolding same using assms by (simp add: dl_inv_def byHost_None)
  moreover have "\<forall>r \<in> set (dlist L). r < Suc (length (objs L))"
    using assms(1) by (auto simp: dl_inv_def)
  ultimately show ?thesis
    by (simp add: dl_inv_def)
qed

end
