(* ===== verification/Database.thy ===== *)
theory Database
  imports Device
begin

text \<open>
  src/device.cpp: the database file. \<open>parse\<close> and \<open>setupEndpoints\<close> read a device from JSON,
  \<open>serialize\<close> writes the list, \<open>writeDatabase\<close>, \<open>store\<close> and \<open>init\<close> connect them with the file. The
  file's content is the JSON document itself: the text \<^verbatim>\<open>QJsonDocument::toJson\<close> makes of it, and
  \<^verbatim>\<open>fromJson\<close> reads back, is Qt's. The current time and whether the file can be opened are
  arguments.
\<close>

subsection \<open>Strings and numbers\<close>

definition is_space :: "char \<Rightarrow> bool" where
  "is_space c = (c = CHR '' '' \<or> (9 \<le> (of_char c :: nat) \<and> (of_char c :: nat) \<le> 13))"

definition trimmed :: "string \<Rightarrow> string" where
  "trimmed s = rev (dropWhile is_space (rev (dropWhile is_space s)))"

text \<open>\<^verbatim>\<open>QString::toInt\<close>: decimal, with a sign if any; 0 when the conversion fails.\<close>

definition digits_opt :: "string \<Rightarrow> nat option" where
  "digits_opt s = (if s \<noteq> [] \<and> list_all is_digit s then Some (digits_value s) else None)"

definition qs_toInt :: "string \<Rightarrow> int" where
  "qs_toInt s =
     (let t = trimmed s;
          i = (case t of
                 [] \<Rightarrow> None
               | c # r \<Rightarrow> if c = CHR ''-'' then map_option (\<lambda>n. - int n) (digits_opt r)
                          else if c = CHR ''+'' then map_option int (digits_opt r)
                          else map_option int (digits_opt t))
      in case i of None \<Rightarrow> 0 | Some v \<Rightarrow> if - (2 ^ 31) \<le> v \<and> v < 2 ^ 31 then v else 0)"

text \<open>\<^verbatim>\<open>QString::toUInt(&ok)\<close>: decimal digits, a plus sign at most; \<open>None\<close> is \<^verbatim>\<open>ok == false\<close>.\<close>

definition qs_toUInt :: "string \<Rightarrow> nat option" where
  "qs_toUInt s =
     (let t = trimmed s;
          n = (case t of [] \<Rightarrow> None | c # r \<Rightarrow> digits_opt (if c = CHR ''+'' then r else t))
      in case n of None \<Rightarrow> None | Some v \<Rightarrow> if v < 2 ^ 32 then Some v else None)"

text \<open>\<^verbatim>\<open>split(sep)\<close> and \<^verbatim>\<open>split(sep, Qt::SkipEmptyParts)\<close>; \<^verbatim>\<open>QStringList::join\<close>.\<close>

fun split_on :: "char \<Rightarrow> string \<Rightarrow> string list" where
  "split_on c [] = [[]]"
| "split_on c (x # xs) =
     (if x = c then [] # split_on c xs
      else (case split_on c xs of [] \<Rightarrow> [[x]] | p # ps \<Rightarrow> (x # p) # ps))"

definition split_skip :: "char \<Rightarrow> string \<Rightarrow> string list" where
  "split_skip c s = [p \<leftarrow> split_on c s. p \<noteq> []]"

fun join :: "char \<Rightarrow> string list \<Rightarrow> string" where
  "join c [] = []"
| "join c [x] = x"
| "join c (x # y # ys) = x @ c # join c (y # ys)"

definition j_int :: "int \<Rightarrow> json" where
  "j_int i = JDouble (double_of_int i)"

text \<open>\<^verbatim>\<open>static_cast\<close> of a \<^verbatim>\<open>double\<close> to \<^verbatim>\<open>qint64\<close> and \<^verbatim>\<open>quint32\<close>; undefined out of range.\<close>

definition fp_cast :: "int \<Rightarrow> int \<Rightarrow> (fp \<Rightarrow> int) \<Rightarrow> fp \<Rightarrow> int" where
  "fp_cast lo hi ub x =
     (case fp_trunc x of
        Some i \<Rightarrow> (if lo \<le> i \<and> i < hi then i else ub x)
      | None \<Rightarrow> ub x)"

subsection \<open>Reading\<close>

definition insert_option :: "string \<Rightarrow> variant \<Rightarrow> DeviceObject \<Rightarrow> DeviceObject" where
  "insert_option k v d = d\<lparr>d_options := qm_insert k v (d_options d)\<rparr>"

definition insert_str :: "string \<Rightarrow> string \<Rightarrow> variant_map \<Rightarrow> variant_map" where
  "insert_str k s m = (if s = [] then m else qm_insert k (VStr s) m)"

definition entity_exposes :: "string \<Rightarrow> string \<Rightarrow> expose list" where
  "entity_exposes etype objectId =
     (if etype = ''switch'' then [SwitchObject]
      else if etype = ''binary_sensor'' then [BinaryObject objectId]
      else if etype = ''sensor'' \<or> etype = ''text_sensor'' then [SensorObject objectId]
      else if etype = ''light'' then [LightObject]
      else if etype = ''select'' then [SelectObject objectId]
      else if etype = ''number'' then [NumberObject objectId]
      else if etype = ''button'' then [ButtonObject None]
      else [])"

definition entity_options :: "json_object \<Rightarrow> string \<Rightarrow> string \<Rightarrow> string \<Rightarrow> DeviceObject \<Rightarrow> DeviceObject" where
  "entity_options entity etype objectId title d =
     (let str = (\<lambda>k. j_toString (jv entity k)) in
      if etype = ''switch'' then insert_option objectId (VMap (vmap [(''title'', VStr title)])) d
      else if etype = ''binary_sensor'' then
        insert_option objectId (VMap (insert_str ''class'' (str ''deviceClass'') (vmap [(''title'', VStr title)]))) d
      else if etype = ''sensor'' \<or> etype = ''text_sensor'' then
        (let opts = insert_str ''state'' (str ''stateClass'')
                      (insert_str ''class'' (str ''deviceClass'')
                        (insert_str ''unit'' (str ''unit'') (vmap [(''title'', VStr title)])));
             decimals = j_toInt 0 (jv entity ''accuracyDecimals'')
         in insert_option objectId (VMap (if 0 < decimals then qm_insert ''round'' (VInt decimals) opts else opts)) d)
      else if etype = ''light'' then
        (let d1 = insert_option ''light'' (VStrList (split_skip (CHR '','') (str ''lightOptions''))) d in
         if qm_contains entity ''minMireds'' \<and> qm_contains entity ''maxMireds''
         then insert_option ''colorTemperature''
                (VMap (vmap [(''min'', VInt (j_toInt 0 (jv entity ''minMireds''))),
                             (''max'', VInt (j_toInt 0 (jv entity ''maxMireds'')))])) d1
         else d1)
      else if etype = ''select'' then
        insert_option objectId
          (VMap (vmap [(''enum'', VStrList (split_skip (CHR 0x0A) (str ''options''))), (''control'', VBool True),
                       (''title'', VStr title)])) d
      else if etype = ''number'' then
        insert_option objectId
          (VMap (insert_str ''unit'' (str ''unit'')
             (vmap [(''min'', VDouble (j_toDouble fp_zero (jv entity ''minValue''))),
                    (''max'', VDouble (j_toDouble fp_zero (jv entity ''maxValue''))),
                    (''step'', VDouble (j_toDouble fp_one (jv entity ''step''))),
                    (''control'', VBool True), (''title'', VStr title)]))) d
      else if etype = ''button'' then
        insert_option objectId
          (VMap (vmap [(''type'', VStr ''button''), (''control'', VBool True), (''title'', VStr title)])) d
      else d)"

text \<open>One pass of the loop of \<^verbatim>\<open>setupEndpoints\<close>.\<close>

definition setupEndpoint :: "env \<Rightarrow> nat \<Rightarrow> json \<Rightarrow> DeviceObject \<Rightarrow> DeviceObject" where
  "setupEndpoint E i item d =
     (let entity = j_toObject item;
          etype = j_toString (jv entity ''type'');
          objectId = j_toString (jv entity ''objectId'');
          key = word_of_int (fp_cast 0 (2 ^ 32) (cast_ub E) (j_toDouble fp_zero (jv entity ''key''))) :: quint32;
          endpointId = word_of_nat (i + 1) :: quint8
      in if etype = [] \<or> objectId = [] \<or> key = 0 then d
         else
           let entityName = j_toString (jv entity ''name'');
               title = if entityName = [] then objectId else entityName;
               ep = (new_endpoint endpointId)
                      \<lparr>ep_meta := vmap [(''key'', VUInt key), (''type'', VStr etype), (''objectId'', VStr objectId)],
                       ep_exposes := entity_exposes etype objectId\<rparr>;
               d' = entity_options entity etype objectId title d
           in d'\<lparr>d_endpoints := qm_insert endpointId ep (d_endpoints d')\<rparr>)"

fun setupEndpoints_loop :: "env \<Rightarrow> nat \<Rightarrow> json list \<Rightarrow> DeviceObject \<Rightarrow> DeviceObject" where
  "setupEndpoints_loop E i [] d = d"
| "setupEndpoints_loop E i (x # xs) d = setupEndpoints_loop E (Suc i) xs (setupEndpoint E i x d)"

definition setupEndpoints :: "env \<Rightarrow> DeviceObject \<Rightarrow> json list \<Rightarrow> DeviceObject" where
  "setupEndpoints E d entities = setupEndpoints_loop E 0 entities (d\<lparr>d_endpoints := []\<rparr>)"

definition parse :: "env \<Rightarrow> device_defaults \<Rightarrow> json_object \<Rightarrow> DeviceObject option" where
  "parse E D obj =
     (let name = j_toString (jv obj ''name'');
          host = j_toString (jv obj ''host'');
          port = word_of_int (j_toInt 6053 (jv obj ''port''));
          key = from_base64 E (to_utf8 E (j_toString (jv obj ''encryptionKey'')))
      in if name = [] \<or> host = [] \<or> key = [] then None
         else let device = (new_device D name host port key)
                  \<lparr>d_active := j_toBool True (jv obj ''active''),
                   d_discovery := j_toBool True (jv obj ''discovery''),
                   d_cloud := j_toBool True (jv obj ''cloud''),
                   d_lastSeen := fp_cast (- (2 ^ 63)) (2 ^ 63) (cast_ub E) (j_toDouble fp_zero (jv obj ''lastSeen'')),
                   d_manufacturerName := j_toString (jv obj ''manufacturerName''),
                   d_publishedEndpoints := map j_toString (j_toArray (jv obj ''publishedEndpoints'')),
                   d_modelName := j_toString (jv obj ''modelName''),
                   d_esphomeVersion := j_toString (jv obj ''esphomeVersion''),
                   d_specialSlots := put_all (\<lambda>k v. qm_insert (qs_toInt k) (j_toString v))
                                       (j_toObject (jv obj ''specialSlots'')) [],
                   d_parentAddress := j_toString (jv obj ''parentAddress'')\<rparr>
              in Some (setupEndpoints E device (j_toArray (jv obj ''entities''))))"

definition unserialize_step :: "env \<Rightarrow> device_defaults \<Rightarrow> DeviceList \<Rightarrow> json \<Rightarrow> DeviceList" where
  "unserialize_step E D L item =
     (case parse E D (j_toObject item) of
        None \<Rightarrow> L
      | Some d \<Rightarrow> (case alloc_dev d L of (r, L') \<Rightarrow> append_dev r L'))"

definition unserialize :: "env \<Rightarrow> device_defaults \<Rightarrow> json list \<Rightarrow> DeviceList \<Rightarrow> DeviceList" where
  "unserialize E D devices L = foldl (unserialize_step E D) L devices"

definition init :: "env \<Rightarrow> device_defaults \<Rightarrow> DeviceList \<Rightarrow> DeviceList" where
  "init E D L =
     (let obj = (case m_file L of None \<Rightarrow> [] | Some j \<Rightarrow> j_toObject j) in
      unserialize E D (j_toArray (jv obj ''devices'')) L)"

subsection \<open>Writing\<close>

definition insert_if :: "bool \<Rightarrow> string \<Rightarrow> json \<Rightarrow> json_object \<Rightarrow> json_object" where
  "insert_if b k j obj = (if b then qm_insert k j obj else obj)"

definition serialize_entity :: "env \<Rightarrow> DeviceObject \<Rightarrow> EndpointObject \<Rightarrow> json_object" where
  "serialize_entity E d ep =
     (let etype = v_toString E (vm (ep_meta ep) ''type'');
          objectId = v_toString E (vm (ep_meta ep) ''objectId'');
          opts = v_toMap (vm (d_options d) objectId);
          str = (\<lambda>k. JString (v_toString E (vm opts k)));
          entityTitle = v_toString E (vm opts ''title'');
          entity = put_all qm_insert
             [(''key'', j_int (uint (v_toUInt (vm (ep_meta ep) ''key'')))), (''type'', JString etype),
              (''objectId'', JString objectId)] [];
          entity = insert_if (entityTitle \<noteq> [] \<and> entityTitle \<noteq> objectId) ''name'' (JString entityTitle) entity
      in if etype = ''binary_sensor'' then qm_insert ''deviceClass'' (str ''class'') entity
         else if etype = ''sensor'' \<or> etype = ''text_sensor'' then
           insert_if (qm_contains opts ''round'') ''accuracyDecimals'' (j_int (v_toInt (vm opts ''round'')))
             (insert_if (qm_contains opts ''state'') ''stateClass'' (str ''state'')
               (insert_if (qm_contains opts ''class'') ''deviceClass'' (str ''class'')
                 (insert_if (qm_contains opts ''unit'') ''unit'' (str ''unit'') entity)))
         else if etype = ''light'' then
           (let ct = v_toMap (vm (d_options d) ''colorTemperature'') in
            insert_if (qm_contains ct ''max'') ''maxMireds'' (j_int (v_toInt (vm ct ''max'')))
              (insert_if (qm_contains ct ''min'') ''minMireds'' (j_int (v_toInt (vm ct ''min'')))
                (qm_insert ''lightOptions'' (JString (join (CHR '','') (v_toStringList (vm (d_options d) ''light'')))) entity)))
         else if etype = ''select'' then
           qm_insert ''options'' (JString (join (CHR 0x0A) (v_toStringList (vm opts ''enum'')))) entity
         else if etype = ''number'' then
           insert_if (qm_contains opts ''unit'') ''unit'' (str ''unit'')
             (put_all qm_insert
               [(''minValue'', JDouble (v_toDouble (vm opts ''min''))),
                (''maxValue'', JDouble (v_toDouble (vm opts ''max''))),
                (''step'', JDouble (v_toDouble (qm_value opts ''step'' (VDouble fp_one))))] entity)
         else entity)"

definition serialize_device :: "env \<Rightarrow> DeviceObject \<Rightarrow> json_object" where
  "serialize_device E d =
     insert_if (d_parentAddress d \<noteq> []) ''parentAddress'' (JString (d_parentAddress d))
       (put_all qm_insert
         [(''name'', JString (d_name d)), (''host'', JString (d_host d)), (''port'', j_int (uint (d_port d))),
          (''encryptionKey'', JString (from_utf8 E (to_base64 E (d_encryptionKey d)))),
          (''active'', JBool (d_active d)), (''discovery'', JBool (d_discovery d)), (''cloud'', JBool (d_cloud d)),
          (''lastSeen'', j_int (d_lastSeen d)), (''manufacturerName'', JString (d_manufacturerName d)),
          (''modelName'', JString (d_modelName d)), (''esphomeVersion'', JString (d_esphomeVersion d)),
          (''entities'', JArray (map (\<lambda>p. JObject (serialize_entity E d (snd p))) (d_endpoints d))),
          (''publishedEndpoints'', JArray (map JString (d_publishedEndpoints d))),
          (''specialSlots'', JObject (put_all (\<lambda>k v. qm_insert (qs_number k) (JString v)) (d_specialSlots d) []))] [])"

definition serialize :: "env \<Rightarrow> DeviceList \<Rightarrow> json list" where
  "serialize E L = map (\<lambda>r. JObject (serialize_device E (dev L r))) (dlist L)"

text \<open>The process-level inputs of an operation that reaches the file.\<close>

record db_io =
  io_now :: int
  io_can_open :: bool
  io_version :: string

definition writeDatabase :: "env \<Rightarrow> db_io \<Rightarrow> DeviceList \<Rightarrow> DeviceList" where
  "writeDatabase E io L =
     (if \<not> io_can_open io then L
      else L\<lparr>m_file := Some (JObject (put_all qm_insert
             [(''devices'', JArray (serialize E L)), (''timestamp'', j_int (io_now io)),
              (''version'', JString (io_version io))] []))\<rparr>)"

text \<open>The destructor of the list writes once more.\<close>

definition DeviceList_delete :: "env \<Rightarrow> db_io \<Rightarrow> DeviceList \<Rightarrow> DeviceList" where
  "DeviceList_delete E io L = writeDatabase E io L"

definition store :: "env \<Rightarrow> db_io \<Rightarrow> bool \<Rightarrow> DeviceList \<Rightarrow> DeviceList" where
  "store E io sync L =
     (if sync then writeDatabase E io (L\<lparr>m_timer := False\<rparr>)
      else L\<lparr>m_sync := False, m_timer := True\<rparr>)"

text \<open>The write timer's timeout: it is single-shot, so it has stopped when its slot runs.\<close>

definition timer_timeout :: "env \<Rightarrow> db_io \<Rightarrow> DeviceList \<Rightarrow> DeviceList" where
  "timer_timeout E io L = (if m_timer L then writeDatabase E io (L\<lparr>m_timer := False\<rparr>) else L)"

subsection \<open>What is written is read back\<close>

lemma jv_insert [simp]: "jv (qm_insert k v m) a = (if a = k then v else jv m a)"
  by (simp add: jv_def)

lemma jv_Nil [simp]: "jv [] a = JUndefined"
  by (simp add: jv_def)

lemma jv_insert_if [simp]: "jv (insert_if b k v m) a = (if b \<and> a = k then v else jv m a)"
  by (simp add: insert_if_def)

lemma j_simps [simp]:
  "j_toString (JString s) = s" "j_toBool b (JBool c) = c" "j_toArray (JArray xs) = xs"
  "j_toObject (JObject m) = m" "j_toDouble x (JDouble y) = y" "j_toString JUndefined = []"
  by (simp_all add: j_accessors)

lemma j_toInt_int: "- (2 ^ 31) \<le> i \<Longrightarrow> i < 2 ^ 31 \<Longrightarrow> j_toInt d (j_int i) = i"
proof -
  assume i: "- (2 ^ 31) \<le> i" "i < 2 ^ 31"
  then have b: "\<bar>i\<bar> < 2 ^ 53" by auto
  obtain m e where "double_of_int i = Fin (i < 0) m e" "0 \<le> e"
    using mkfp_nat [of "i < 0" "nat \<bar>i\<bar>"] double_of_int_exact [OF b] by auto
  moreover have "fp_to_int (\<lambda>_. d) (double_of_int i) = i"
    using i fp_trunc_double_of_int [OF b] by (simp add: fp_to_int_def)
  ultimately show ?thesis by (simp add: j_toInt_def j_int_def)
qed

lemma fp_cast_int: "\<bar>i\<bar> < 2 ^ 53 \<Longrightarrow> lo \<le> i \<Longrightarrow> i < hi \<Longrightarrow> fp_cast lo hi ub (double_of_int i) = i"
  by (simp add: fp_cast_def fp_trunc_double_of_int)

lemma not_space_digit: "is_digit c \<Longrightarrow> \<not> is_space c"
  by (auto simp: is_digit_def is_space_def)

lemma dropWhile_none: "\<forall>c \<in> set s. \<not> P c \<Longrightarrow> dropWhile P s = s"
  by (cases s) auto

lemma trimmed_digits: "list_all is_digit s \<Longrightarrow> trimmed s = s"
proof -
  assume "list_all is_digit s"
  then have "\<forall>c \<in> set s. \<not> is_space c" by (auto simp: list_all_iff not_space_digit)
  then have "dropWhile is_space s = s" "dropWhile is_space (rev s) = rev s"
    by (simp_all add: dropWhile_none)
  then show ?thesis by (simp add: trimmed_def)
qed

lemma trimmed_minus: "list_all is_digit s \<Longrightarrow> s \<noteq> [] \<Longrightarrow> trimmed (CHR ''-'' # s) = CHR ''-'' # s"
proof -
  assume s: "list_all is_digit s" "s \<noteq> []"
  then obtain c t where c: "rev s = c # t" "is_digit c"
    by (cases "rev s") (auto simp: list_all_iff dest: arg_cong [of _ _ set])
  then have "dropWhile is_space (rev s @ [CHR ''-'']) = rev s @ [CHR ''-'']"
    by (simp add: not_space_digit)
  moreover have "dropWhile is_space (CHR ''-'' # s) = CHR ''-'' # s" by (simp add: is_space_def)
  ultimately show ?thesis by (simp add: trimmed_def)
qed

lemma nat_digits_not_sign: "nat_digits n = c # r \<Longrightarrow> c \<noteq> CHR ''-'' \<and> c \<noteq> CHR ''+''"
  using nat_digits_digits [of n] by (auto simp: is_digit_def)

lemma qs_toInt_number: "- (2 ^ 31) \<le> i \<Longrightarrow> i < 2 ^ 31 \<Longrightarrow> qs_toInt (qs_number i) = i"
proof -
  assume i: "- (2 ^ 31) \<le> i" "i < 2 ^ 31"
  let ?n = "nat \<bar>i\<bar>"
  have d: "digits_opt (nat_digits ?n) = Some ?n"
    by (simp add: digits_opt_def nat_digits_digits digits_value_nat_digits)
  show ?thesis
  proof (cases "i < 0")
    case True
    then show ?thesis
      using i d trimmed_minus [OF nat_digits_digits [of ?n]] by (simp add: qs_toInt_def qs_number_def Let_def)
  next
    case False
    obtain c r where c: "nat_digits ?n = c # r" by (cases "nat_digits ?n") simp_all
    show ?thesis
      using False i d trimmed_digits [OF nat_digits_digits [of ?n]] nat_digits_not_sign [OF c] c
      by (simp add: qs_toInt_def qs_number_def Let_def)
  qed
qed

text \<open>What the database keeps of a device, and when it can be kept.\<close>

definition base64_ok :: "env \<Rightarrow> bytes \<Rightarrow> bool" where
  "base64_ok E b = (from_base64 E (to_utf8 E (from_utf8 E (to_base64 E b))) = b)"

definition storable :: "env \<Rightarrow> DeviceObject \<Rightarrow> bool" where
  "storable E d =
     (d_name d \<noteq> [] \<and> d_host d \<noteq> [] \<and> d_encryptionKey d \<noteq> [] \<and> base64_ok E (d_encryptionKey d) \<and>
      \<bar>d_lastSeen d\<bar> < 2 ^ 53 \<and> qm_sorted (d_specialSlots d) \<and>
      list_all (\<lambda>p. - (2 ^ 31) \<le> fst p \<and> fst p < 2 ^ 31) (d_specialSlots d))"

definition saved :: "DeviceObject \<Rightarrow> DeviceObject" where
  "saved d = d\<lparr>d_availability := Unknown, d_endpoints := [], d_options := []\<rparr>"

lemma saved_eq:
  "saved d = \<lparr>d_name = d_name d, d_host = d_host d, d_port = d_port d, d_encryptionKey = d_encryptionKey d,
     d_esphomeVersion = d_esphomeVersion d, d_lastSeen = d_lastSeen d, d_publishedEndpoints = d_publishedEndpoints d,
     d_specialSlots = d_specialSlots d, d_parentAddress = d_parentAddress d, d_active = d_active d,
     d_discovery = d_discovery d, d_cloud = d_cloud d, d_availability = Unknown,
     d_manufacturerName = d_manufacturerName d, d_modelName = d_modelName d, d_endpoints = [], d_options = []\<rparr>"
  by (simp add: saved_def)

lemma saved_saved [simp]: "saved (saved d) = saved d"
  by (simp add: saved_def)

lemma saved_entity_options [simp]:
  "saved (entity_options entity etype objectId title d) = saved d"
  "d_endpoints (entity_options entity etype objectId title d) = d_endpoints d"
  "d_availability (entity_options entity etype objectId title d) = d_availability d"
  "d_specialSlots (entity_options entity etype objectId title d) = d_specialSlots d"
  by (simp_all add: saved_def entity_options_def insert_option_def Let_def)

lemma saved_setupEndpoint [simp]: "saved (setupEndpoint E i item d) = saved d"
proof -
  have "saved (d\<lparr>d_endpoints := x\<rparr>) = saved d" for d x by (simp add: saved_def)
  then show ?thesis by (simp add: setupEndpoint_def Let_def)
qed

lemma saved_setupEndpoints [simp]: "saved (setupEndpoints E d items) = saved d"
proof -
  have "saved (setupEndpoints_loop E i items d) = saved d" for i d
    by (induction items arbitrary: i d) simp_all
  then show ?thesis by (simp add: setupEndpoints_def saved_def)
qed

lemma put_all_slots:
  assumes "qm_sorted m" "list_all (\<lambda>p. - (2 ^ 31) \<le> fst p \<and> fst p < 2 ^ 31) m"
  shows "put_all (\<lambda>k v. qm_insert (qs_toInt k) (j_toString v))
           (put_all (\<lambda>k v. qm_insert (qs_number k) (JString v)) m []) [] = m"
  by (rule put_all_rekey) (use assms in \<open>auto simp: list_all_iff qs_toInt_number\<close>)

lemma uint_quint16: "- (2 ^ 31) \<le> uint (w :: quint16)" "uint w < 2 ^ 31"
  using uint_lt2p [of w] order_trans [OF _ uint_ge_0 [of w], of "- 2147483648"] by simp_all

lemma port_roundtrip: "word_of_int (j_toInt d (j_int (uint (w :: quint16)))) = w"
  using uint_quint16 [of w] by (simp add: j_toInt_int)

text \<open>
  The fields of a serialised device, as \<open>parse\<close> looks them up.
\<close>

lemma serialize_fields:
  "jv (serialize_device E d) ''name'' = JString (d_name d)"
  "jv (serialize_device E d) ''host'' = JString (d_host d)"
  "jv (serialize_device E d) ''port'' = j_int (uint (d_port d))"
  "jv (serialize_device E d) ''encryptionKey'' = JString (from_utf8 E (to_base64 E (d_encryptionKey d)))"
  "jv (serialize_device E d) ''active'' = JBool (d_active d)"
  "jv (serialize_device E d) ''discovery'' = JBool (d_discovery d)"
  "jv (serialize_device E d) ''cloud'' = JBool (d_cloud d)"
  "jv (serialize_device E d) ''lastSeen'' = j_int (d_lastSeen d)"
  "jv (serialize_device E d) ''manufacturerName'' = JString (d_manufacturerName d)"
  "jv (serialize_device E d) ''modelName'' = JString (d_modelName d)"
  "jv (serialize_device E d) ''esphomeVersion'' = JString (d_esphomeVersion d)"
  "jv (serialize_device E d) ''publishedEndpoints'' = JArray (map JString (d_publishedEndpoints d))"
  "jv (serialize_device E d) ''specialSlots'' =
     JObject (put_all (\<lambda>k v. qm_insert (qs_number k) (JString v)) (d_specialSlots d) [])"
  "jv (serialize_device E d) ''entities'' = JArray (map (\<lambda>p. JObject (serialize_entity E d (snd p))) (d_endpoints d))"
  "j_toString (jv (serialize_device E d) ''parentAddress'') = d_parentAddress d"
  unfolding serialize_device_def by simp_all

lemma parse_serialize:
  assumes "storable E d"
  shows "parse E D (serialize_device E d) =
    Some (setupEndpoints E (saved d) (map (\<lambda>p. JObject (serialize_entity E d (snd p))) (d_endpoints d)))"
proof -
  note s = assms [unfolded storable_def]
  have j: "j_toString \<circ> JString = (\<lambda>s. s)" by auto
  have slots: "put_all (\<lambda>k v. qm_insert (qs_toInt k) (j_toString v))
      (put_all (\<lambda>k v. qm_insert (qs_number k) (JString v)) (d_specialSlots d) []) [] = d_specialSlots d"
    using s by (intro put_all_slots) simp_all
  have seen: "fp_cast (- (2 ^ 63)) (2 ^ 63) (cast_ub E) (j_toDouble fp_zero (j_int (d_lastSeen d))) = d_lastSeen d"
    using s by (simp add: j_int_def fp_cast_int abs_less_iff)
  show ?thesis
    using s slots seen port_roundtrip [of _ "d_port d"]
    by (simp add: parse_def serialize_fields Let_def base64_ok_def new_device_def saved_eq j)
qed

lemma unserialize_all:
  assumes "\<And>x. x \<in> set xs \<Longrightarrow> parse E D (j_toObject x) = Some (f x)" "\<forall>r \<in> set (dlist L). r < length (objs L)"
  shows "map (dev (unserialize E D xs L)) (dlist (unserialize E D xs L)) = map (dev L) (dlist L) @ map f xs"
  using assms
proof (induction xs arbitrary: L)
  case (Cons x xs)
  let ?M = "append_dev (length (objs L)) (snd (alloc_dev (f x) L))"
  have step: "unserialize_step E D L x = ?M"
    using Cons.prems(1) [of x] by (simp add: unserialize_step_def prod.case_eq_if)
  have m: "map (dev ?M) (dlist ?M) = map (dev L) (dlist L) @ [f x]"
    using Cons.prems(2) by simp
  have "\<forall>r \<in> set (dlist ?M). r < length (objs ?M)"
    using Cons.prems(2) by auto
  then have "map (dev (unserialize E D xs ?M)) (dlist (unserialize E D xs ?M)) = map (dev ?M) (dlist ?M) @ map f xs"
    using Cons.prems(1) by (intro Cons.IH) auto
  then show ?case
    unfolding m by (simp add: unserialize_def step)
qed (simp add: unserialize_def)

subsubsection \<open>Endpoints\<close>

definition ep_wire :: "env \<Rightarrow> EndpointObject \<Rightarrow> quint32 \<times> string \<times> string" where
  "ep_wire E ep = (v_toUInt (vm (ep_meta ep) ''key''), v_toString E (vm (ep_meta ep) ''type''),
                   v_toString E (vm (ep_meta ep) ''objectId''))"

definition ep_kept :: "env \<Rightarrow> EndpointObject \<Rightarrow> bool" where
  "ep_kept E ep = (case ep_wire E ep of (key, etype, objectId) \<Rightarrow> key \<noteq> 0 \<and> etype \<noteq> [] \<and> objectId \<noteq> [])"

lemma serialize_entity_fields:
  "jv (serialize_entity E d ep) ''key'' = j_int (uint (v_toUInt (vm (ep_meta ep) ''key'')))"
  "jv (serialize_entity E d ep) ''type'' = JString (v_toString E (vm (ep_meta ep) ''type''))"
  "jv (serialize_entity E d ep) ''objectId'' = JString (v_toString E (vm (ep_meta ep) ''objectId''))"
  unfolding serialize_entity_def by (simp_all add: Let_def)

lemma key_roundtrip: "word_of_int (fp_cast 0 4294967296 ub (double_of_int (uint (k :: quint32)))) = k"
  using uint_lt2p [of k] by (simp add: fp_cast_int)

lemma setupEndpoint_kept:
  assumes "ep_kept E ep"
  shows "\<exists>ep'. d_endpoints (setupEndpoint E i (JObject (serialize_entity E d ep)) x) =
           qm_insert (word_of_nat (i + 1)) ep' (d_endpoints x) \<and> ep_wire E ep' = ep_wire E ep \<and>
           \<not> v_toBool (vm (ep_meta ep') ''special'')"
  using assms
  by (auto simp: setupEndpoint_def Let_def serialize_entity_fields j_int_def key_roundtrip ep_kept_def ep_wire_def
      vmap_def vm_def qm_value_def)

lemma nat_word_less: "i < j \<Longrightarrow> j < 2 ^ LENGTH('a) \<Longrightarrow> (word_of_nat i :: 'a::len word) < word_of_nat j"
  by (simp add: word_less_nat_alt unat_of_nat)

lemma setupEndpoints_loop_kept:
  assumes "list_all (\<lambda>p. ep_kept E (snd p)) ps" "i + length ps < 256"
    "map fst (d_endpoints x) = map (\<lambda>j. word_of_nat (j + 1)) [0..<i]"
    "list_all (\<lambda>p. \<not> v_toBool (vm (ep_meta (snd p)) ''special'')) (d_endpoints x)"
  shows "let y = setupEndpoints_loop E i (map (\<lambda>p. JObject (serialize_entity E d (snd p))) ps) x in
    map fst (d_endpoints y) = map (\<lambda>j. word_of_nat (j + 1)) [0..<i + length ps] \<and>
    map (ep_wire E \<circ> snd) (d_endpoints y) = map (ep_wire E \<circ> snd) (d_endpoints x @ ps) \<and>
    list_all (\<lambda>p. \<not> v_toBool (vm (ep_meta (snd p)) ''special'')) (d_endpoints y)"
  using assms
proof (induction ps arbitrary: i x)
  case (Cons p ps)
  let ?x = "setupEndpoint E i (JObject (serialize_entity E d (snd p))) x"
  obtain ep' where ep': "d_endpoints ?x = qm_insert (word_of_nat (i + 1)) ep' (d_endpoints x)"
      "ep_wire E ep' = ep_wire E (snd p)" "\<not> v_toBool (vm (ep_meta ep') ''special'')"
    using setupEndpoint_kept [of E "snd p" i d x] Cons.prems(1) by auto
  have "\<forall>q \<in> set (d_endpoints x). fst q \<in> set (map fst (d_endpoints x))" by simp
  then have "\<forall>q \<in> set (d_endpoints x). fst q < word_of_nat (i + 1)"
    unfolding Cons.prems(3) using Cons.prems(2) by (auto dest!: bspec intro!: nat_word_less simp del: of_nat_Suc of_nat_add)
  then have e: "d_endpoints ?x = d_endpoints x @ [(word_of_nat (i + 1), ep')]"
    using ep'(1) by (simp add: qm_insert_last)
  have "map fst (d_endpoints ?x) = map (\<lambda>j. word_of_nat (j + 1)) [0..<Suc i]"
    using e Cons.prems(3) by simp
  then show ?case
    using Cons.IH [of "Suc i" ?x] Cons.prems(1,2,4) e ep'(2,3) by (simp add: Let_def)
qed simp

text \<open>What comes back of the entities of a device: key, type and object id of each, in order.\<close>

definition stored_entities :: "env \<Rightarrow> DeviceObject \<Rightarrow> (quint32 \<times> string \<times> string) list" where
  "stored_entities E d = map (ep_wire E \<circ> snd) (d_endpoints d)"

definition stored_entities_ok :: "env \<Rightarrow> DeviceObject \<Rightarrow> bool" where
  "stored_entities_ok E d = (list_all (\<lambda>p. ep_kept E (snd p)) (d_endpoints d) \<and> length (d_endpoints d) < 256)"

lemma setupEndpoints_kept:
  assumes "stored_entities_ok E d"
  shows "let y = setupEndpoints E x (map (\<lambda>p. JObject (serialize_entity E d (snd p))) (d_endpoints d)) in
    map fst (d_endpoints y) = map (\<lambda>j. word_of_nat (j + 1)) [0..<length (d_endpoints d)] \<and> stored_entities E y = stored_entities E d \<and>
    list_all (\<lambda>p. \<not> v_toBool (vm (ep_meta (snd p)) ''special'')) (d_endpoints y)"
  using setupEndpoints_loop_kept [of E "d_endpoints d" 0 "x\<lparr>d_endpoints := []\<rparr>" d] assms
  by (simp add: setupEndpoints_def stored_entities_def stored_entities_ok_def Let_def)

subsection \<open>Properties\<close>

text \<open>
  C10: Saving survives a restart. When the write timer fires, the file can be opened and the listed
  devices can be kept (non-empty name, host and key, the key round trips through base64, last-seen
  within the exact range of a double, slot numbers in range), a service started on that file lists
  the same devices in the same order: every stored field of a device is equal, and it has the same
  entities in the same order, with their key, type and object id (if it has at most 255 and each has
  all three).
\<close>

theorem restart_keeps_devices:
  assumes "list_all (\<lambda>r. storable E (dev L r) \<and> stored_entities_ok E (dev L r)) (dlist L)" "io_can_open io" "m_timer L"
  shows "let L' = init E D (DeviceList_new names (m_file (timer_timeout E io L))) in
         map (\<lambda>r. (saved (dev L' r), stored_entities E (dev L' r))) (dlist L') =
         map (\<lambda>r. (saved (dev L r), stored_entities E (dev L r))) (dlist L)"
proof -
  let ?f = "\<lambda>d. setupEndpoints E (saved d) (map (\<lambda>p. JObject (serialize_entity E d (snd p))) (d_endpoints d))"
  let ?xs = "map (\<lambda>r. JObject (serialize_device E (dev L r))) (dlist L)"
  let ?L' = "init E D (DeviceList_new names (m_file (timer_timeout E io L)))"
  let ?g = "\<lambda>x. the (parse E D (j_toObject x))"
  have "init E D (DeviceList_new names (m_file (timer_timeout E io L))) = unserialize E D ?xs (DeviceList_new names (m_file (timer_timeout E io L)))"
    using assms(2,3) by (simp add: init_def timer_timeout_def writeDatabase_def DeviceList_new_def serialize_def dev_def)
  moreover have "map (dev (unserialize E D ?xs M)) (dlist (unserialize E D ?xs M)) = map (dev M) (dlist M) @ map ?g ?xs"
    if "dlist M = []" for M
    using assms(1) that by (intro unserialize_all) (auto simp: list_all_iff parse_serialize)
  ultimately have "map (dev ?L') (dlist ?L') = map ?g ?xs"
    by (simp add: DeviceList_new_def)
  also have "\<dots> = map (\<lambda>r. ?f (dev L r)) (dlist L)"
    using assms(1) by (auto simp: list_all_iff parse_serialize)
  finally have "map (\<lambda>d. (saved d, stored_entities E d)) (map (dev ?L') (dlist ?L')) =
      map (\<lambda>d. (saved d, stored_entities E d)) (map (\<lambda>r. ?f (dev L r)) (dlist L))"
    by simp
  moreover have "stored_entities E (?f (dev L r)) = stored_entities E (dev L r)" if "r \<in> set (dlist L)" for r
    using setupEndpoints_kept [of E "dev L r" "saved (dev L r)"] assms(1) that by (simp add: list_all_iff Let_def)
  ultimately show ?thesis
    by (simp add: Let_def comp_def)
qed

definition example_defaults :: device_defaults where
  "example_defaults = \<lparr>def_active = True, def_discovery = True, def_cloud = True\<rparr>"

definition example_device :: DeviceObject where
  "example_device =
     (new_device example_defaults ''lamp'' ''10.0.0.7'' 6053 (replicate 32 7))
       \<lparr>d_lastSeen := 1700000000, d_specialSlots := [(1, ''Old''), (3, ''Lamp'')],
        d_endpoints := [(3, (new_endpoint 3)
            \<lparr>ep_meta := vmap [(''key'', VUInt 77), (''type'', VStr ''light''), (''objectId'', VStr ''lamp''),
                              (''special'', VBool True)]\<rparr>)]\<rparr>"

lemma restart_keeps_devices_witness:
  "let L = append_dev 0 (snd (alloc_dev example_device (DeviceList_new False None)))\<lparr>m_timer := True\<rparr>;
       io = \<lparr>io_now = 1700000001, io_can_open = True, io_version = ''0.1.0''\<rparr>;
       L' = init ascii_env example_defaults (DeviceList_new True (m_file (timer_timeout ascii_env io L))) in
   map (\<lambda>r. (saved (dev L' r), stored_entities ascii_env (dev L' r))) (dlist L') = [(saved example_device, [(77, ''light'', ''lamp'')])]"
proof -
  let ?L = "append_dev 0 (snd (alloc_dev example_device (DeviceList_new False None)))\<lparr>m_timer := True\<rparr>"
  have d: "dlist ?L = [0]" "dev ?L 0 = example_device"
    by (simp_all add: DeviceList_new_def dev_def alloc_dev_def append_dev_def)
  have "storable ascii_env example_device"
    by (simp add: storable_def example_device_def new_device_def base64_ok_def ascii_env_def qm_sorted_def comp_def)
  moreover have "stored_entities_ok ascii_env example_device" "stored_entities ascii_env example_device = [(77, ''light'', ''lamp'')]"
    by (simp_all add: stored_entities_ok_def stored_entities_def example_device_def vmap_def ep_kept_def ep_wire_def)
  ultimately show ?thesis
    using restart_keeps_devices [of ascii_env ?L "\<lparr>io_now = 1700000001, io_can_open = True, io_version = ''0.1.0''\<rparr>" example_defaults True]
    by (simp add: d Let_def)
qed

text \<open>
  C27: The numbers of special entities do not persist across a restart, against COMMANDS.md. A restored
  device has its entities back, but numbered 1, 2, 3, ... by position, whatever numbers they had, and none
  of them is special any more; the slots that record which number belongs to which special entity
  are restored, and not looked at.
\<close>

theorem restart_endpoints:
  assumes "storable E d" "stored_entities_ok E d"
  shows "\<exists>d'. parse E D (serialize_device E d) = Some d' \<and> stored_entities E d' = stored_entities E d \<and>
     map fst (d_endpoints d') = map (\<lambda>j. word_of_nat (j + 1)) [0..<length (d_endpoints d)] \<and>
     list_all (\<lambda>p. \<not> v_toBool (vm (ep_meta (snd p)) ''special'')) (d_endpoints d') \<and>
     d_specialSlots d' = d_specialSlots d"
proof -
  let ?d' = "setupEndpoints E (saved d) (map (\<lambda>p. JObject (serialize_entity E d (snd p))) (d_endpoints d))"
  have "saved ?d' = saved d" by simp
  then have "d_specialSlots ?d' = d_specialSlots d" by (simp only: saved_eq) simp
  then show ?thesis using parse_serialize [OF assms(1), of D] setupEndpoints_kept [OF assms(2), of "saved d"] by (simp add: Let_def)
qed

lemma restart_endpoints_witness:
  "\<exists>d'. parse ascii_env example_defaults (serialize_device ascii_env example_device) = Some d' \<and>
     map (\<lambda>p. (fst p, v_toBool (vm (ep_meta (snd p)) ''special''))) (d_endpoints example_device) = [(3, True)] \<and>
     map fst (d_endpoints d') = [1] \<and> list_all (\<lambda>p. \<not> v_toBool (vm (ep_meta (snd p)) ''special'')) (d_endpoints d') \<and>
     d_specialSlots d' = [(1, ''Old''), (3, ''Lamp'')]"
proof -
  have "storable ascii_env example_device" "length (d_endpoints example_device) = 1"
      "map (\<lambda>p. (fst p, v_toBool (vm (ep_meta (snd p)) ''special''))) (d_endpoints example_device) = [(3, True)]"
      "d_specialSlots example_device = [(1, ''Old''), (3, ''Lamp'')]"
    by (simp_all add: storable_def example_device_def new_device_def base64_ok_def ascii_env_def qm_sorted_def comp_def vmap_def)
  moreover have "stored_entities_ok ascii_env example_device"
    by (simp add: stored_entities_ok_def example_device_def vmap_def ep_kept_def ep_wire_def)
  ultimately show ?thesis
    using restart_endpoints [of ascii_env example_device example_defaults] by auto
qed

end
