(* ===== verification/Publish.thy ===== *)
theory Publish
  imports Database
begin

text \<open>
  src/controller.cpp, the publishing side of \<^verbatim>\<open>Controller\<close>: what it sends to the MQTT broker about a
  device and when, and the slots the connections' signals run.

  The state is a \<open>world\<close>: the device list, the properties timer, whether the broker is connected,
  the clock, and the messages sent so far, in order. Signals are direct connections, so emitting one is calling
  its slot. \<^verbatim>\<open>HOMEd\<close> and the expose classes are homed-common's: the record \<open>config\<close> holds what the
  configuration and \<^verbatim>\<open>HOMEd\<close> supply, the record \<open>expose_api\<close> the virtual methods of an expose.
  \<^verbatim>\<open>QString::arg\<close> is concatenation (no argument contains a place marker).
\<close>

datatype out =
    MqttPublish string json_object bool
  | MqttPublishStatus json_object
  | MqttPublishService
  | MqttPublishDiscovery string string string
  | MqttSubscribe string
  | ExitRestart

record config =
  c_haPrefix :: string
  c_haStatus :: string
  c_haEnabled :: bool
  c_mqttTopic :: "string \<Rightarrow> string"
  c_serviceTopic :: string
  c_uniqueId :: string
  c_version :: string
  c_defaults :: device_defaults

record expose_api =
  ex_name :: "expose \<Rightarrow> string"
  ex_component :: "expose \<Rightarrow> string"
  ex_discovery :: "DeviceObject \<Rightarrow> expose \<Rightarrow> bool"
  ex_request :: "DeviceObject \<Rightarrow> EndpointObject \<Rightarrow> string \<Rightarrow> string \<Rightarrow> expose \<Rightarrow> json_object"
  ex_title :: "DeviceObject \<Rightarrow> EndpointObject \<Rightarrow> expose \<Rightarrow> string"

record world =
  w_devices :: DeviceList
  w_propertiesTimer :: bool
  w_mqtt :: bool
  w_now :: int
  w_out :: "out list"

text \<open>The parameters of a run, bundled.\<close>

record service =
  s_env :: env
  s_config :: config
  s_expose :: expose_api

definition wdev :: "world \<Rightarrow> dref \<Rightarrow> DeviceObject" where
  "wdev W r = dev (w_devices W) r"

definition send :: "out \<Rightarrow> world \<Rightarrow> world" where
  "send x W = W\<lparr>w_out := w_out W @ [x]\<rparr>"

definition mqttPublish :: "string \<Rightarrow> json_object \<Rightarrow> bool \<Rightarrow> world \<Rightarrow> world" where
  "mqttPublish topic json retain = send (MqttPublish topic json retain)"

definition start_properties_timer :: "world \<Rightarrow> world" where
  "start_properties_timer W = W\<lparr>w_propertiesTimer := True\<rparr>"

text \<open>\<^verbatim>\<open>device->setX(...)\<close> on the object \<open>r\<close>, and \<^verbatim>\<open>m_devices->store()\<close>.\<close>

definition on_dev :: "dref \<Rightarrow> (DeviceObject \<Rightarrow> DeviceObject) \<Rightarrow> world \<Rightarrow> world" where
  "on_dev r f W = W\<lparr>w_devices := upd_dev r f (w_devices W)\<rparr>"

definition store_later :: "world \<Rightarrow> world" where
  "store_later W = W\<lparr>w_devices := (w_devices W)\<lparr>m_sync := False, m_timer := True\<rparr>\<rparr>"

text \<open>\<^verbatim>\<open>QJsonObject::fromVariantMap\<close>.\<close>

primrec json_of_variant :: "variant \<Rightarrow> json" where
  "json_of_variant VInvalid = JNull"
| "json_of_variant (VBool b) = JBool b"
| "json_of_variant (VInt i) = j_int i"
| "json_of_variant (VUInt k) = j_int (uint k)"
| "json_of_variant (VULong k) = j_int (uint k)"
| "json_of_variant (VDouble x) = JDouble x"
| "json_of_variant (VStr s) = JString s"
| "json_of_variant (VStrList ss) = JArray (map JString ss)"
| "json_of_variant (VList xs) = JArray (map json_of_variant xs)"
| "json_of_variant (VMap m) = JObject (map (map_prod id json_of_variant) m)"

definition fromVariantMap :: "variant_map \<Rightarrow> json_object" where
  "fromVariantMap m = map (\<lambda>p. (fst p, json_of_variant (snd p))) m"

definition jobj :: "(string \<times> json) list \<Rightarrow> json_object" where
  "jobj kvs = put_all qm_insert kvs []"

subsection \<open>Topics\<close>

definition deviceTopic :: "service \<Rightarrow> world \<Rightarrow> dref \<Rightarrow> string" where
  "deviceTopic S W r =
     (if m_names (w_devices W) then d_name (wdev W r) else address (s_env S) (wdev W r))"

definition svc_topic :: "service \<Rightarrow> string \<Rightarrow> string" where
  "svc_topic S kind = c_mqttTopic (s_config S) (kind @ ''/'' @ c_serviceTopic (s_config S))"

definition dev_topic :: "service \<Rightarrow> string \<Rightarrow> string \<Rightarrow> string" where
  "dev_topic S kind rest = c_mqttTopic (s_config S) (kind @ ''/'' @ c_serviceTopic (s_config S) @ ''/'' @ rest)"

definition sub_topic :: "string \<Rightarrow> int \<Rightarrow> string" where
  "sub_topic devTopic i = devTopic @ ''/'' @ qs_number i"

definition m_str :: "service \<Rightarrow> EndpointObject \<Rightarrow> string \<Rightarrow> string" where
  "m_str S ep k = v_toString (s_env S) (vm (ep_meta ep) k)"

definition ep_special :: "EndpointObject \<Rightarrow> bool" where
  "ep_special ep = v_toBool (vm (ep_meta ep) ''special'')"

text \<open>\<^verbatim>\<open>endpointForAction\<close>: the endpoint with that object id, 0 if there is none.\<close>

fun endpoint_for_action :: "service \<Rightarrow> string \<Rightarrow> (quint8 \<times> EndpointObject) list \<Rightarrow> quint8" where
  "endpoint_for_action S action [] = 0"
| "endpoint_for_action S action ((i, ep) # eps) =
     (if m_str S ep ''objectId'' = action then i else endpoint_for_action S action eps)"

definition endpointForAction :: "service \<Rightarrow> DeviceObject \<Rightarrow> string \<Rightarrow> quint8" where
  "endpointForAction S d action = endpoint_for_action S action (d_endpoints d)"

subsection \<open>Home Assistant discovery\<close>

definition ha_node :: "service \<Rightarrow> DeviceObject \<Rightarrow> string" where
  "ha_node S d = c_uniqueId (s_config S) @ ''_'' @ haSafeId (s_env S) (address (s_env S) d)"

definition ha_config :: "service \<Rightarrow> DeviceObject \<Rightarrow> string \<Rightarrow> quint8 \<Rightarrow> EndpointObject \<Rightarrow> expose \<Rightarrow> json_object" where
  "ha_config S d devTopic i ep x =
     (let topic = (if ep_special ep then sub_topic devTopic (uint i) else devTopic);
          status_of = (\<lambda>t. JObject (jobj [(''topic'', JString t), (''value_template'', JString ''{{ value_json.status }}'')]));
          availability = [status_of (dev_topic S ''device'' devTopic), status_of (svc_topic S ''service'' )];
          identity = jobj [(''identifiers'', JArray [JString (ha_node S d)]), (''name'', JString (d_name d)),
                           (''via_device'', JString (c_uniqueId (s_config S)))];
          icon = m_str S ep ''icon'';
          json = put_all qm_insert
            [(''availability'', JArray availability), (''availability_mode'', JString ''all''),
             (''device'', JObject identity), (''name'', JString (ex_title (s_expose S) d ep x)),
             (''unique_id'', JString (ha_node S d @ ''_'' @ m_str S ep ''objectId''))]
            (ex_request (s_expose S) d ep (dev_topic S ''fd'' topic) (dev_topic S ''td'' topic) x)
      in insert_if (icon \<noteq> []) ''icon'' (JString icon) json)"

definition ha_topic :: "service \<Rightarrow> DeviceObject \<Rightarrow> string \<Rightarrow> expose \<Rightarrow> string" where
  "ha_topic S d objectId x =
     c_haPrefix (s_config S) @ ''/'' @ ex_component (s_expose S) x @ ''/'' @ ha_node S d @ ''/'' @ objectId @ ''/config''"

definition ha_endpoint :: "service \<Rightarrow> DeviceObject \<Rightarrow> string \<Rightarrow> bool \<Rightarrow> quint8 \<times> EndpointObject \<Rightarrow> world \<Rightarrow> world" where
  "ha_endpoint S d devTopic remove p W =
     (let objectId = m_str S (snd p) ''objectId'' in
      if objectId = [] then W
      else foldl (\<lambda>W x.
             if \<not> ex_discovery (s_expose S) d x then W
             else mqttPublish (ha_topic S d objectId x)
                    (if remove then [] else ha_config S d devTopic (fst p) (snd p) x) True W) W (ep_exposes (snd p)))"

definition publishHaDiscovery :: "service \<Rightarrow> dref \<Rightarrow> string \<Rightarrow> bool \<Rightarrow> world \<Rightarrow> world" where
  "publishHaDiscovery S r devTopic remove W =
     (let d = wdev W r in foldl (\<lambda>W p. ha_endpoint S d devTopic remove p W) W (d_endpoints d))"

subsection \<open>Exposes\<close>

definition climate_keys :: "string list" where
  "climate_keys = [''systemMode'', ''operationMode'', ''fanMode'', ''targetTemperature'', ''runningStatus'']"

definition insert_valid :: "string \<Rightarrow> variant \<Rightarrow> variant_map \<Rightarrow> variant_map" where
  "insert_valid k v m = (if v = VInvalid then m else qm_insert k v m)"

text \<open>The options of a special endpoint's own entry.\<close>

definition slot_options :: "service \<Rightarrow> DeviceObject \<Rightarrow> quint8 \<Rightarrow> EndpointObject \<Rightarrow> variant_map" where
  "slot_options S d i ep =
     (let objectId = m_str S ep ''objectId'';
          entityType = m_str S ep ''type'';
          icon = m_str S ep ''icon'';
          base = vmap [(''name'', VStr (m_str S ep ''title''))];
          options =
            (if entityType = ''light'' then
               insert_valid ''colorTemperature'' (vm (d_options d) (objectId @ ''_colorTemperature''))
                 (let lightOpt = vm (d_options d) (objectId @ ''_light'') in
                  qm_insert ''light'' (if lightOpt \<noteq> VInvalid then lightOpt else VList []) base)
             else if entityType = ''climate'' then
               foldl (\<lambda>m k. insert_valid k (vm (d_options d) (k @ ''_'' @ qs_number (uint i))) m) base climate_keys
             else base)
      in if icon \<noteq> [] \<and> entityType \<noteq> ''climate'' \<and> entityType \<noteq> ''cover'' then
           qm_insert ''status'' (VMap (vmap [(''icon'', VStr icon)])) options
         else if icon \<noteq> [] \<and> entityType = ''climate'' then
           qm_insert ''targetTemperature''
             (VMap (qm_insert ''icon'' (VStr icon) (v_toMap (vm options ''targetTemperature'')))) options
         else options)"

record expose_acc =
  commonItems :: "string list"
  commonOptions :: variant_map
  slots :: variant_map

definition expose_endpoint :: "service \<Rightarrow> DeviceObject \<Rightarrow> expose_acc \<Rightarrow> quint8 \<times> EndpointObject \<Rightarrow> expose_acc" where
  "expose_endpoint S d acc p =
     (let i = fst p; ep = snd p; objectId = m_str S ep ''objectId'' in
      if ep_exposes ep = [] \<or> objectId = [] then acc
      else let epItems = map (ex_name (s_expose S)) (ep_exposes ep) in
        if ep_special ep then
          acc\<lparr>slots := qm_insert (qs_number (uint i))
                (VMap (vmap [(''items'', VStrList epItems), (''options'', VMap (slot_options S d i ep))])) (slots acc)\<rparr>
        else acc\<lparr>commonItems := commonItems acc @ epItems,
                 commonOptions := insert_valid (hd epItems) (vm (d_options d) objectId) (commonOptions acc)\<rparr>)"

definition expose_data :: "service \<Rightarrow> DeviceObject \<Rightarrow> variant_map" where
  "expose_data S d =
     (let acc = foldl (expose_endpoint S d) \<lparr>commonItems = [], commonOptions = [], slots = []\<rparr> (d_endpoints d);
          items = vmap [(''items'', VStrList (commonItems acc))]
      in qm_insert ''common''
           (VMap (if commonOptions acc \<noteq> [] then qm_insert ''options'' (VMap (commonOptions acc)) items else items))
           (slots acc))"

definition publishExposes :: "service \<Rightarrow> bool \<Rightarrow> dref \<Rightarrow> world \<Rightarrow> world" where
  "publishExposes S remove r W =
     (let devTopic = deviceTopic S W r;
          W1 = (if c_haEnabled (s_config S) then publishHaDiscovery S r devTopic remove W else W)
      in if \<not> remove
         then start_properties_timer
                (mqttPublish (dev_topic S ''expose'' devTopic) (fromVariantMap (expose_data S (wdev W r))) True W1)
         else mqttPublish (dev_topic S ''expose'' devTopic) [] True W1)"

definition clearStaleTopics :: "service \<Rightarrow> dref \<Rightarrow> world \<Rightarrow> world" where
  "clearStaleTopics S r W =
     (let devTopic = deviceTopic S W r;
          published = d_publishedEndpoints (wdev W r);
          n = length (d_endpoints (wdev W r));
          retract = (\<lambda>W key. mqttPublish (dev_topic S ''fd'' (devTopic @ ''/'' @ key)) [] True W);
          W1 = (if published = [] \<and> n \<noteq> 0 then foldl retract W (map (\<lambda>i. qs_number (int i)) [1..<n + 1]) else W);
          W2 = foldl retract W1 published
      in if published \<noteq> [] then on_dev r (\<lambda>d. d\<lparr>d_publishedEndpoints := []\<rparr>) W2 else W2)"

subsection \<open>Status and state\<close>

definition status_of_device :: "service \<Rightarrow> DeviceList \<Rightarrow> DeviceObject \<Rightarrow> json_object" where
  "status_of_device S L d =
     insert_if (d_parentAddress d \<noteq> []) ''subdeviceOf''
       (JString (case byHost L (d_parentAddress d) of None \<Rightarrow> d_parentAddress d | Some p \<Rightarrow> d_name (dev L p)))
       (jobj [(''name'', JString (d_name d)), (''id'', JString (address (s_env S) d)), (''host'', JString (d_host d)),
              (''port'', j_int (uint (d_port d))), (''manufacturerName'', JString (d_manufacturerName d)),
              (''modelName'', JString (d_modelName d)), (''esphomeVersion'', JString (d_esphomeVersion d)),
              (''lastSeen'', j_int (d_lastSeen d)), (''active'', JBool (d_active d)),
              (''discovery'', JBool (d_discovery d)), (''cloud'', JBool (d_cloud d))])"

definition publishStatus :: "service \<Rightarrow> world \<Rightarrow> world" where
  "publishStatus S W =
     (let L = w_devices W in
      send (MqttPublishStatus (jobj
        [(''status'', JString ''online''), (''devices'', JArray (map (\<lambda>r. JObject (status_of_device S L (dev L r))) (dlist L))),
         (''names'', JBool (m_names L)), (''version'', JString (c_version (s_config S)))])) W)"

definition publishDeviceStatus :: "service \<Rightarrow> dref \<Rightarrow> world \<Rightarrow> world" where
  "publishDeviceStatus S r W =
     (let d = wdev W r; status = if d_availability d = Online then ''online'' else ''offline'' in
      mqttPublish (dev_topic S ''device'' (deviceTopic S W r))
        (jobj [(''lastSeen'', j_int (d_lastSeen d)), (''status'', JString status)]) True W)"

text \<open>The loop of \<^verbatim>\<open>publishDeviceState\<close>; it carries \<^verbatim>\<open>commonState\<close> and \<^verbatim>\<open>hasCommonState\<close>.\<close>

fun publish_states ::
  "service \<Rightarrow> string \<Rightarrow> (quint8 \<times> EndpointObject) list \<Rightarrow> variant_map \<times> bool \<Rightarrow> world \<Rightarrow> (variant_map \<times> bool) \<times> world" where
  "publish_states S devTopic [] acc W = (acc, W)"
| "publish_states S devTopic ((i, ep) # eps) (common, has) W =
     (if ep_state ep = [] then publish_states S devTopic eps (common, has) W
      else if ep_special ep then
        publish_states S devTopic eps (common, has)
          (mqttPublish (dev_topic S ''fd'' (sub_topic devTopic (uint i))) (fromVariantMap (ep_state ep)) False W)
      else publish_states S devTopic eps (put_all qm_insert (ep_state ep) common, True) W)"

definition publishDeviceState :: "service \<Rightarrow> dref \<Rightarrow> world \<Rightarrow> world" where
  "publishDeviceState S r W =
     (if \<not> w_mqtt W then W
      else let devTopic = deviceTopic S W r in
        case publish_states S devTopic (d_endpoints (wdev W r)) ([], False) W of
          ((common, has), W1) \<Rightarrow>
            if has then mqttPublish (dev_topic S ''fd'' devTopic) (fromVariantMap common) False W1 else W1)"

definition updateProperties :: "service \<Rightarrow> world \<Rightarrow> world" where
  "updateProperties S W =
     foldl (\<lambda>W r. if \<not> d_active (wdev W r) then W else publishDeviceState S r W) W (dlist (w_devices W))"

text \<open>The properties timer is single-shot.\<close>

definition properties_timeout :: "service \<Rightarrow> world \<Rightarrow> world" where
  "properties_timeout S W =
     (if w_propertiesTimer W then updateProperties S (W\<lparr>w_propertiesTimer := False\<rparr>) else W)"

subsection \<open>The slots the connections call\<close>

definition publish_event :: "service \<Rightarrow> string \<Rightarrow> string \<Rightarrow> world \<Rightarrow> world" where
  "publish_event S event name =
     mqttPublish (svc_topic S ''event'') (jobj [(''event'', JString event), (''device'', JString name)]) False"

definition entitiesDiscovered :: "service \<Rightarrow> dref \<Rightarrow> world \<Rightarrow> world" where
  "entitiesDiscovered S r W =
     (let W1 = publishStatus S (publishDeviceStatus S r (publishExposes S False r (clearStaleTopics S r (store_later W))))
      in publish_event S ''updated'' (d_name (wdev W1 r)) W1)"

definition stateChanged :: "service \<Rightarrow> dref \<Rightarrow> quint8 \<Rightarrow> world \<Rightarrow> world" where
  "stateChanged S r endpointId W = publishDeviceState S r W"

definition availabilityChanged :: "service \<Rightarrow> dref \<Rightarrow> world \<Rightarrow> world" where
  "availabilityChanged S r W =
     (let W1 = publishDeviceStatus S r W in
      if d_availability (wdev W1 r) = Online then start_properties_timer W1 else W1)"

subsection \<open>Messages, in closed form\<close>

definition sends :: "out list \<Rightarrow> world \<Rightarrow> world" where
  "sends xs W = W\<lparr>w_out := w_out W @ xs\<rparr>"

lemma sends_simps [simp]:
  "sends [] W = W" "sends ys (sends xs W) = sends (xs @ ys) W"
  "w_devices (sends xs W) = w_devices W" "w_mqtt (sends xs W) = w_mqtt W" "w_now (sends xs W) = w_now W"
  "w_propertiesTimer (sends xs W) = w_propertiesTimer W" "w_out (sends xs W) = w_out W @ xs"
  "wdev (sends xs W) r = wdev W r" "deviceTopic S (sends xs W) r = deviceTopic S W r"
  by (simp_all add: sends_def wdev_def deviceTopic_def)

lemma mqttPublish_sends: "mqttPublish t j b W = sends [MqttPublish t j b] W"
  by (simp add: mqttPublish_def send_def sends_def)

lemma send_sends: "send x W = sends [x] W"
  by (simp add: send_def sends_def)

lemma foldl_sends:
  assumes "\<And>x W. x \<in> set xs \<Longrightarrow> f W x = sends (g x) W"
  shows "foldl f W xs = sends (concat (map g xs)) W"
  using assms by (induction xs arbitrary: W) simp_all

lemma start_properties_timer_simps [simp]:
  "w_devices (start_properties_timer W) = w_devices W" "w_mqtt (start_properties_timer W) = w_mqtt W"
  "w_out (start_properties_timer W) = w_out W" "wdev (start_properties_timer W) r = wdev W r"
  by (simp_all add: start_properties_timer_def wdev_def)

lemma on_dev_simps [simp]:
  "w_mqtt (on_dev r f W) = w_mqtt W" "w_out (on_dev r f W) = w_out W"
  "w_propertiesTimer (on_dev r f W) = w_propertiesTimer W" "w_devices (on_dev r f W) = upd_dev r f (w_devices W)"
  by (simp_all add: on_dev_def)

definition ha_messages :: "service \<Rightarrow> DeviceObject \<Rightarrow> string \<Rightarrow> bool \<Rightarrow> out list" where
  "ha_messages S d devTopic remove =
     concat (map (\<lambda>p.
       let objectId = m_str S (snd p) ''objectId'' in
       if objectId = [] then []
       else concat (map (\<lambda>x.
              if \<not> ex_discovery (s_expose S) d x then []
              else [MqttPublish (ha_topic S d objectId x) (if remove then [] else ha_config S d devTopic (fst p) (snd p) x) True])
            (ep_exposes (snd p)))) (d_endpoints d))"

lemma publishHaDiscovery_sends: "publishHaDiscovery S r t remove W = sends (ha_messages S (wdev W r) t remove) W"
proof -
  have "ha_endpoint S d t remove p W = sends
     (let objectId = m_str S (snd p) ''objectId'' in
       if objectId = [] then []
       else concat (map (\<lambda>x.
              if \<not> ex_discovery (s_expose S) d x then []
              else [MqttPublish (ha_topic S d objectId x) (if remove then [] else ha_config S d t (fst p) (snd p) x) True])
            (ep_exposes (snd p)))) W" for d p W
    unfolding ha_endpoint_def Let_def by (auto intro!: foldl_sends simp: mqttPublish_sends)
  then show ?thesis
    unfolding publishHaDiscovery_def ha_messages_def Let_def by (intro foldl_sends)
qed

definition expose_messages :: "service \<Rightarrow> bool \<Rightarrow> string \<Rightarrow> DeviceObject \<Rightarrow> out list" where
  "expose_messages S remove t d =
     (if c_haEnabled (s_config S) then ha_messages S d t remove else []) @
     [MqttPublish (dev_topic S ''expose'' t) (if remove then [] else fromVariantMap (expose_data S d)) True]"

lemma publishExposes_sends:
  "publishExposes S remove r W =
     (let W1 = sends (expose_messages S remove (deviceTopic S W r) (wdev W r)) W in
      if remove then W1 else start_properties_timer W1)"
  by (simp add: publishExposes_def Let_def expose_messages_def publishHaDiscovery_sends mqttPublish_sends)

lemma publish_states_sends:
  "publish_states S t eps (common, has) W =
     ((foldl (\<lambda>m p. put_all qm_insert (ep_state (snd p)) m) common [p \<leftarrow> eps. ep_state (snd p) \<noteq> [] \<and> \<not> ep_special (snd p)],
       has \<or> (\<exists>p \<in> set eps. ep_state (snd p) \<noteq> [] \<and> \<not> ep_special (snd p))),
      sends (map (\<lambda>p. MqttPublish (dev_topic S ''fd'' (sub_topic t (uint (fst p)))) (fromVariantMap (ep_state (snd p))) False)
               [p \<leftarrow> eps. ep_state (snd p) \<noteq> [] \<and> ep_special (snd p)]) W)"
  by (induction eps arbitrary: common has W) (auto simp: mqttPublish_sends)

definition special_states :: "DeviceObject \<Rightarrow> (quint8 \<times> EndpointObject) list" where
  "special_states d = [p \<leftarrow> d_endpoints d. ep_state (snd p) \<noteq> [] \<and> ep_special (snd p)]"

definition common_states :: "DeviceObject \<Rightarrow> (quint8 \<times> EndpointObject) list" where
  "common_states d = [p \<leftarrow> d_endpoints d. ep_state (snd p) \<noteq> [] \<and> \<not> ep_special (snd p)]"

definition merged_state :: "DeviceObject \<Rightarrow> variant_map" where
  "merged_state d = foldl (\<lambda>m p. put_all qm_insert (ep_state (snd p)) m) [] (common_states d)"

definition state_messages :: "service \<Rightarrow> string \<Rightarrow> DeviceObject \<Rightarrow> out list" where
  "state_messages S t d =
     map (\<lambda>p. MqttPublish (dev_topic S ''fd'' (sub_topic t (uint (fst p)))) (fromVariantMap (ep_state (snd p))) False)
       (special_states d) @
     (if common_states d = [] then [] else [MqttPublish (dev_topic S ''fd'' t) (fromVariantMap (merged_state d)) False])"

lemma publishDeviceState_sends:
  "publishDeviceState S r W =
     (if w_mqtt W then sends (state_messages S (deviceTopic S W r) (wdev W r)) W else W)"
proof -
  have "(\<exists>p \<in> set (d_endpoints d). ep_state (snd p) \<noteq> [] \<and> \<not> ep_special (snd p)) \<longleftrightarrow> common_states d \<noteq> []" for d
    by (auto simp: common_states_def filter_empty_conv)
  then show ?thesis
    by (simp add: publishDeviceState_def Let_def publish_states_sends state_messages_def special_states_def
        merged_state_def common_states_def [symmetric] mqttPublish_sends)
qed

lemma contains_put_all: "qm_contains (put_all qm_insert kvs m) k \<longleftrightarrow> qm_contains kvs k \<or> qm_contains m k"
proof (induction kvs arbitrary: m)
  case (Cons p kvs)
  then show ?case by (cases p) (auto simp: qm_contains_iff)
qed simp

lemma contains_merged:
  "qm_contains (foldl (\<lambda>m p. put_all qm_insert (ep_state (snd p)) m) m0 eps) k \<longleftrightarrow>
   qm_contains m0 k \<or> (\<exists>p \<in> set eps. qm_contains (ep_state (snd p)) k)"
  by (induction eps arbitrary: m0) (auto simp: contains_put_all)

subsubsection \<open>What the slots leave alone\<close>

text \<open>
  No message or slot changes a device except its list of published endpoints: \<open>dl_same\<close> relates two
  lists that agree otherwise.
\<close>

definition dl_same :: "DeviceList \<Rightarrow> DeviceList \<Rightarrow> bool" where
  "dl_same L M = (dlist L = dlist M \<and> m_names L = m_names M \<and> length (objs L) = length (objs M) \<and>
     (\<exists>f. \<forall>r. dev M r = dev L r\<lparr>d_publishedEndpoints := f r\<rparr>))"

lemma dl_same_refl: "dl_same L L"
  unfolding dl_same_def by (auto intro!: exI [of _ "\<lambda>r. d_publishedEndpoints (dev L r)"])

lemma dl_same_trans: "dl_same L M \<Longrightarrow> dl_same M N \<Longrightarrow> dl_same L N"
  unfolding dl_same_def by fastforce

lemma dl_same_host: "dl_same L M \<Longrightarrow> d_host (dev M r) = d_host (dev L r)"
  by (auto simp: dl_same_def)

lemma dl_inv_same: "dl_same L M \<Longrightarrow> dl_inv M \<longleftrightarrow> dl_inv L"
  unfolding dl_inv_def by (auto simp: dl_same_def)

lemma dl_same_clear: "dl_same L (upd_dev r (\<lambda>d. d\<lparr>d_publishedEndpoints := ps\<rparr>) L)"
  unfolding dl_same_def
  by (cases "r < length (objs L)")
    (auto simp: upd_dev_def dev_def list_update_beyond nth_list_update
      intro!: exI [of _ "\<lambda>s. if s = r \<and> r < length (objs L) then ps else d_publishedEndpoints (dev L s)"])

definition stale_messages :: "service \<Rightarrow> string \<Rightarrow> DeviceObject \<Rightarrow> out list" where
  "stale_messages S t d =
     map (\<lambda>key. MqttPublish (dev_topic S ''fd'' (t @ ''/'' @ key)) [] True)
       (if d_publishedEndpoints d = [] then map (\<lambda>i. qs_number (int i)) [1..<length (d_endpoints d) + 1]
        else d_publishedEndpoints d)"

lemma clearStaleTopics_sends:
  "clearStaleTopics S r W =
     (let W1 = sends (stale_messages S (deviceTopic S W r) (wdev W r)) W in
      if d_publishedEndpoints (wdev W r) = [] then W1 else on_dev r (\<lambda>d. d\<lparr>d_publishedEndpoints := []\<rparr>) W1)"
proof -
  have f: "foldl (\<lambda>W key. mqttPublish (dev_topic S ''fd'' (t @ ''/'' @ key)) [] True W) V ks =
        sends (map (\<lambda>key. MqttPublish (dev_topic S ''fd'' (t @ ''/'' @ key)) [] True) ks) V" for t ks V
    by (induction ks arbitrary: V) (simp_all add: mqttPublish_sends)
  show ?thesis
    unfolding clearStaleTopics_def Let_def f stale_messages_def
    by (cases "d_endpoints (wdev W r) = []") (simp_all del: upt_Suc append_Cons append_Nil)
qed

lemma same_clearStaleTopics: "dl_same (w_devices W) (w_devices (clearStaleTopics S r W))"
  by (simp add: clearStaleTopics_sends Let_def dl_same_refl dl_same_clear)

lemma devices_publish [simp]:
  "w_devices (publishExposes S remove r W) = w_devices W"
  "w_devices (publishStatus S W) = w_devices W"
  "w_devices (publishDeviceStatus S r W) = w_devices W"
  "w_devices (publishDeviceState S r W) = w_devices W"
  "w_devices (publish_event S e n W) = w_devices W"
  "w_devices (stateChanged S r i W) = w_devices W"
  "w_devices (availabilityChanged S r W) = w_devices W"
  by (simp_all add: publishExposes_sends Let_def publishStatus_def send_sends publishDeviceStatus_def mqttPublish_sends
      publishDeviceState_sends publish_event_def stateChanged_def availabilityChanged_def)

lemma same_entitiesDiscovered: "dl_same (w_devices W) (w_devices (entitiesDiscovered S r W))"
proof -
  have "dl_same (w_devices W) (w_devices (store_later W))"
    unfolding dl_same_def store_later_def
    by (auto simp: dev_def intro!: exI [of _ "\<lambda>r. d_publishedEndpoints (dev (w_devices W) r)"])
  then show ?thesis
    using dl_same_trans same_clearStaleTopics [of "store_later W"]
    by (fastforce simp: entitiesDiscovered_def Let_def)
qed

subsection \<open>Properties\<close>

text \<open>
  C22: What a state publication sends. Nothing while the broker is away; otherwise, in order, one
  message per special endpoint that has a state, on that endpoint's own topic, and one last message
  on the device's topic if any other endpoint has a state, whose object has exactly the keys of
  those endpoints' states.
\<close>

theorem device_state_published:
  "publishDeviceState S r W =
     (if w_mqtt W then sends (state_messages S (deviceTopic S W r) (wdev W r)) W else W)
   \<and> qm_contains (merged_state d) k = list_ex (\<lambda>p. qm_contains (ep_state (snd p)) k) (common_states d)"
  by (simp add: publishDeviceState_sends merged_state_def contains_merged list_ex_iff)

fun out_topic :: "out \<Rightarrow> string option" where
  "out_topic (MqttPublish t j b) = Some t"
| "out_topic _ = None"

definition is_retraction :: "out \<Rightarrow> bool" where
  "is_retraction x = (case x of MqttPublish t j b \<Rightarrow> j = [] \<and> b | _ \<Rightarrow> False)"

lemma ha_messages_topics: "map out_topic (ha_messages S d t remove) = map out_topic (ha_messages S d t remove')"
  unfolding ha_messages_def map_concat map_map
  by (intro arg_cong [of _ _ concat] map_cong refl) (auto simp: Let_def map_concat intro!: arg_cong [of _ _ concat])

lemma ha_messages_retract: "list_all is_retraction (ha_messages S d t True)"
  unfolding ha_messages_def list_all_iff by (auto simp: Let_def is_retraction_def split: if_splits)

text \<open>
  C21: Removing a device's exposes retracts what publishing them left on the broker: the same topics
  in the same order, Home Assistant's included, each with an empty retained message.
\<close>

theorem removal_retracts:
  "\<exists>on off. w_out (publishExposes S False r W) = w_out W @ on
     \<and> w_out (publishExposes S True r W) = w_out W @ off
     \<and> map out_topic off = map out_topic on \<and> list_all is_retraction off"
proof (intro exI conjI)
  let ?m = "\<lambda>b. expose_messages S b (deviceTopic S W r) (wdev W r)"
  show "w_out (publishExposes S False r W) = w_out W @ ?m False"
    "w_out (publishExposes S True r W) = w_out W @ ?m True"
    by (simp_all add: publishExposes_sends Let_def)
  show "map out_topic (?m True) = map out_topic (?m False)"
    using ha_messages_topics [of S _ _ True False] by (simp add: expose_messages_def)
  show "list_all is_retraction (?m True)"
    by (simp add: expose_messages_def ha_messages_retract is_retraction_def)
qed

text \<open>
  The migration in \<^verbatim>\<open>clearStaleTopics\<close> is not run once: a device with \<open>n\<close> endpoints gets \<open>n\<close>
  empty retained messages on the topics numbered 1 to \<open>n\<close> every time, after the previous call has
  emptied its list of published endpoints. Those are the topics its special endpoints publish on.
\<close>

theorem migration_repeats:
  assumes "r < length (objs (w_devices W))" "d_endpoints (wdev W r) \<noteq> []"
  shows "let W1 = clearStaleTopics S r W in
     w_out (clearStaleTopics S r W1) =
       w_out W1 @ map (\<lambda>i. MqttPublish (dev_topic S ''fd'' (sub_topic (deviceTopic S W r) (int i))) [] True)
                    [1..<length (d_endpoints (wdev W r)) + 1]"
proof -
  let ?W1 = "clearStaleTopics S r W"
  have d: "d_publishedEndpoints (wdev ?W1 r) = []" "d_endpoints (wdev ?W1 r) = d_endpoints (wdev W r)"
      "deviceTopic S ?W1 r = deviceTopic S W r"
    using assms(1) by (simp_all add: clearStaleTopics_sends Let_def wdev_def deviceTopic_def address_def)
  show ?thesis
    using d by (simp add: clearStaleTopics_sends [of S r ?W1] Let_def stale_messages_def sub_topic_def comp_def del: upt_Suc)
qed

definition example_service :: service where
  "example_service =
     \<lparr>s_env = ascii_env,
      s_config = \<lparr>c_haPrefix = ''homeassistant'', c_haStatus = ''homeassistant/status'', c_haEnabled = True,
        c_mqttTopic = (\<lambda>s. ''homed/'' @ s), c_serviceTopic = ''esphome'', c_uniqueId = ''id'', c_version = ''0.1.0'',
        c_defaults = example_defaults\<rparr>,
      s_expose = \<lparr>ex_name = (\<lambda>x. case x of SwitchObject \<Rightarrow> ''switch'' | LightObject \<Rightarrow> ''light'' | SensorObject n \<Rightarrow> n | _ \<Rightarrow> ''other''),
        ex_component = (\<lambda>x. case x of SwitchObject \<Rightarrow> ''switch'' | LightObject \<Rightarrow> ''light'' | _ \<Rightarrow> ''sensor''),
        ex_discovery = (\<lambda>d x. True), ex_request = (\<lambda>d ep st ct x. jobj [(''state_topic'', JString st), (''command_topic'', JString ct)]),
        ex_title = (\<lambda>d ep x. ''title'')\<rparr>\<rparr>"

definition example_world :: world where
  "example_world =
     \<lparr>w_devices = append_dev 0 (snd (alloc_dev example_device (DeviceList_new False None))),
      w_propertiesTimer = False, w_mqtt = True, w_now = 1700000000, w_out = []\<rparr>"

lemma migration_repeats_witness:
  "w_out (clearStaleTopics example_service 0 (clearStaleTopics example_service 0 example_world)) =
     w_out (clearStaleTopics example_service 0 example_world) @
     [MqttPublish ''homed/fd/esphome/10.0.0.7/1'' [] True]"
proof -
  have l: "length (objs (w_devices example_world)) = 1" "wdev example_world 0 = example_device"
    by (simp_all add: example_world_def DeviceList_new_def alloc_dev_def wdev_def dev_def append_dev_def)
  moreover have "length (d_endpoints example_device) = 1" by (simp add: example_device_def)
  moreover have "deviceTopic example_service example_world 0 = ''10.0.0.7''"
    using l(2) by (simp add: deviceTopic_def example_device_def new_device_def address_def)
      (simp add: example_world_def DeviceList_new_def alloc_dev_def append_dev_def example_service_def ascii_env_def)
  moreover have "sub_topic ''10.0.0.7'' 1 = ''10.0.0.7/1''"
    by code_simp
  ultimately show ?thesis
    using migration_repeats [of 0 example_world example_service]
    by (simp add: Let_def dev_topic_def example_service_def flip: length_0_conv)
qed

end
