(* ===== verification/Proto.thy ===== *)
theory Proto
  imports Fp
begin

text \<open>
  src/proto.h and src/proto.cpp: the minimal protobuf encoder and decoder.

  A \<^verbatim>\<open>ProtoEncoder\<close> is the byte array it has built so far; each \<^verbatim>\<open>add\<close> method appends to it. A
  \<^verbatim>\<open>ProtoDecoder\<close> is its data and the position \<^verbatim>\<open>m_pos\<close>, a C++ \<^verbatim>\<open>int\<close>. Reading returns an \<open>rd\<close>:
  \<open>Rd x p\<close> is \<^verbatim>\<open>true\<close> with the value \<open>x\<close> and the new position, \<open>RdFail p\<close> is \<^verbatim>\<open>false\<close>, and \<open>RdOob\<close>
  stands for a call of \<^verbatim>\<open>QByteArray::at\<close> outside the array, which is undefined behaviour.
  \<^verbatim>\<open>ProtoDecoder::decode\<close> is a loop that may not end, so \<open>decode\<close> returns an \<open>option\<close>: \<open>None\<close> is a
  call that does not return a list.
\<close>

datatype 'a rd = Rd 'a int | RdFail int | RdOob

record ProtoField =
  m_field :: int
  m_wireType :: int
  m_varint :: quint64
  m_float :: quint32
  m_raw :: bytes

text \<open>The accessors of \<^verbatim>\<open>ProtoField\<close>; \<open>m_float\<close> holds the bits that \<^verbatim>\<open>memcpy\<close> copies.\<close>

definition f_boolean :: "ProtoField \<Rightarrow> bool" where
  "f_boolean f = (m_varint f \<noteq> 0)"

definition f_floatVal :: "ProtoField \<Rightarrow> fp" where
  "f_floatVal f = float_of_bits (m_float f)"

definition f_fixed32 :: "ProtoField \<Rightarrow> quint32" where
  "f_fixed32 f = ucast (m_varint f)"

subsection \<open>Encoder\<close>

function writeVarint :: "quint64 \<Rightarrow> bytes \<Rightarrow> bytes" where
  "writeVarint v d =
     (if 0x80 \<le> v
      then writeVarint (drop_bit 7 v) (d @ [ucast ((v AND 0x7F) OR 0x80)])
      else d @ [ucast (v AND 0x7F)])"
  by pat_completeness auto

lemma unat_drop_bit_7: "unat (drop_bit 7 (v :: quint64)) = unat v div 128"
  by (simp add: unat_drop_bit_eq drop_bit_eq_div unat_div)

lemma ge_0x80_unat: "0x80 \<le> (v :: quint64) \<longleftrightarrow> 128 \<le> unat v"
  by (simp add: word_le_nat_alt)

termination writeVarint
  by (relation "measure (\<lambda>(v, d). unat v)") (auto simp: unat_drop_bit_7 ge_0x80_unat)

declare writeVarint.simps [simp del]

definition writeTag :: "int \<Rightarrow> int \<Rightarrow> bytes \<Rightarrow> bytes" where
  "writeTag field wireType d =
     writeVarint (scast (push_bit 3 (word_of_int field :: 32 word) OR word_of_int wireType)) d"

definition addVarint :: "int \<Rightarrow> quint64 \<Rightarrow> bytes \<Rightarrow> bytes" where
  "addVarint field value d = writeVarint value (writeTag field 0 d)"

definition addFixed32 :: "int \<Rightarrow> quint32 \<Rightarrow> bytes \<Rightarrow> bytes" where
  "addFixed32 field value d =
     writeTag field 5 d @
       [ucast (value AND 0xFF), ucast (drop_bit 8 value AND 0xFF),
        ucast (drop_bit 16 value AND 0xFF), ucast (drop_bit 24 value AND 0xFF)]"

definition addFloat :: "int \<Rightarrow> fp \<Rightarrow> bytes \<Rightarrow> bytes" where
  "addFloat field value = addFixed32 field (bits_of_float value)"

definition addBool :: "int \<Rightarrow> bool \<Rightarrow> bytes \<Rightarrow> bytes" where
  "addBool field value = addVarint field (if value then 1 else 0)"

definition addBytes :: "int \<Rightarrow> bytes \<Rightarrow> bytes \<Rightarrow> bytes" where
  "addBytes field value d = writeVarint (word_of_nat (length value)) (writeTag field 2 d) @ value"

text \<open>\<open>to_utf8\<close> is \<^verbatim>\<open>QString::toUtf8\<close>.\<close>

definition addString :: "(string \<Rightarrow> bytes) \<Rightarrow> int \<Rightarrow> string \<Rightarrow> bytes \<Rightarrow> bytes" where
  "addString to_utf8 field value = addBytes field (to_utf8 value)"

subsection \<open>Decoder\<close>

function readVarint_loop :: "bytes \<Rightarrow> int \<Rightarrow> nat \<Rightarrow> quint64 \<Rightarrow> quint64 rd" where
  "readVarint_loop d pos shift value =
     (if pos < int (length d) then
        if pos < 0 then RdOob
        else
          let b = d ! nat pos;
              value' = value OR push_bit shift (ucast (b AND 0x7F))
          in if b AND 0x80 = 0 then Rd value' (pos + 1)
             else if 64 \<le> shift + 7 then RdFail (pos + 1)
             else readVarint_loop d (pos + 1) (shift + 7) value'
      else RdFail pos)"
  by pat_completeness auto
termination
  by (relation "measure (\<lambda>(d, pos, shift, value). 64 - shift)") auto

declare readVarint_loop.simps [simp del]

definition readVarint :: "bytes \<Rightarrow> int \<Rightarrow> quint64 rd" where
  "readVarint d pos = readVarint_loop d pos 0 0"

definition mkField :: "int \<Rightarrow> int \<Rightarrow> quint64 \<Rightarrow> quint32 \<Rightarrow> bytes \<Rightarrow> ProtoField" where
  "mkField field wireType v fl raw =
     \<lparr>m_field = field, m_wireType = wireType, m_varint = v, m_float = fl, m_raw = raw\<rparr>"

text \<open>
  Four bytes at \<open>p\<close>, least significant first, for the 32-bit case; \<open>None\<close> if one of the four \<^verbatim>\<open>at\<close> calls is
  outside the array.
\<close>

definition le32_at :: "bytes \<Rightarrow> int \<Rightarrow> quint32 option" where
  "le32_at d p =
     (if 0 \<le> p \<and> p + 3 < int (length d) then
        Some (ucast (d ! nat p) OR push_bit 8 (ucast (d ! (nat p + 1))) OR push_bit 16 (ucast (d ! (nat p + 2)))
          OR push_bit 24 (ucast (d ! (nat p + 3))))
      else None)"

definition readField :: "bytes \<Rightarrow> int \<Rightarrow> ProtoField rd" where
  "readField d pos =
     (let size = int (length d) in
      if size \<le> pos then RdFail pos
      else case readVarint d pos of
        RdOob \<Rightarrow> RdOob
      | RdFail p \<Rightarrow> RdFail p
      | Rd tag p \<Rightarrow>
          let field = int_of_u64 (drop_bit 3 tag); wireType = uint (tag AND 7) in
          if wireType = 0 then
            (case readVarint d p of
               RdOob \<Rightarrow> RdOob
             | RdFail q \<Rightarrow> RdFail q
             | Rd v q \<Rightarrow> Rd (mkField field wireType v 0 []) q)
          else if wireType = 1 then
            (if size < wrap32 (p + 8) then RdFail p
             else Rd (mkField field wireType 0 0 []) (wrap32 (p + 8)))
          else if wireType = 2 then
            (case readVarint d p of
               RdOob \<Rightarrow> RdOob
             | RdFail q \<Rightarrow> RdFail q
             | Rd len q \<Rightarrow>
                 if size < wrap32 (q + int_of_u64 len) then RdFail q
                 else Rd (mkField field wireType 0 0 (qba_mid d q (int_of_u64 len)))
                        (wrap32 (q + int_of_u64 len)))
          else if wireType = 5 then
            (if size < wrap32 (p + 4) then RdFail p
             else (case le32_at d p of
                     None \<Rightarrow> RdOob
                   | Some bits \<Rightarrow> Rd (mkField field wireType (ucast bits) bits []) (wrap32 (p + 4))))
          else RdFail p)"

partial_function (option) decode_loop :: "bytes \<Rightarrow> int \<Rightarrow> ProtoField list \<Rightarrow> ProtoField list option" where
  "decode_loop d pos acc =
     (if pos < int (length d) then
        (case readField d pos of
           Rd f p \<Rightarrow> decode_loop d p (acc @ [f])
         | RdFail p \<Rightarrow> Some acc
         | RdOob \<Rightarrow> None)
      else Some acc)"

definition decode :: "bytes \<Rightarrow> ProtoField list option" where
  "decode d = decode_loop d 0 []"

subsection \<open>Variable-length integers\<close>

lemma varint_byte_value:
  "ucast (ucast ((v AND 0x7F) OR 0x80) AND (0x7F :: byte)) = take_bit 7 (v :: quint64)"
  by (rule bit_word_eqI) (auto simp: bit_simps)

lemma varint_byte_more: "ucast ((v AND 0x7F) OR (0x80::quint64)) AND (0x80 :: byte) \<noteq> 0"
proof
  assume "ucast ((v AND 0x7F) OR (0x80::quint64)) AND (0x80 :: byte) = 0"
  then have "\<not> bit (ucast ((v AND 0x7F) OR (0x80::quint64)) AND (0x80 :: byte)) 7" by simp
  then show False by (simp add: bit_simps)
qed

lemma lt_0x80_bit: "\<not> 0x80 \<le> (v :: quint64) \<Longrightarrow> 7 \<le> n \<Longrightarrow> \<not> bit v n"
  using unat_less_take_bit [of v 7] bit_take_bit_iff [of 7 v n] by (simp add: ge_0x80_unat)

lemma varint_last_byte:
  assumes "\<not> 0x80 \<le> (v :: quint64)"
  shows "ucast (v AND 0x7F) AND (0x80 :: byte) = 0"
    and "ucast (ucast (v AND 0x7F) AND (0x7F :: byte)) = v"
proof -
  show "ucast (v AND 0x7F) AND (0x80 :: byte) = 0"
    by (rule bit_word_eqI) (auto simp: bit_simps)
  show "ucast (ucast (v AND 0x7F) AND (0x7F :: byte)) = v"
  proof (rule bit_word_eqI)
    fix n
    have "bit v n \<Longrightarrow> n < 7" using lt_0x80_bit [OF assms, of n] by (cases "7 \<le> n") auto
    then show "bit (ucast (ucast (v AND 0x7F) AND (0x7F :: byte)) :: quint64) n = bit v n"
      by (auto simp: bit_simps)
  qed
qed

lemma writeVarint_append: "writeVarint v (d @ e) = d @ writeVarint v e"
proof (induction v e arbitrary: d rule: writeVarint.induct)
  case (1 v e)
  then show ?case
    by (cases "0x80 \<le> v") (simp_all add: writeVarint.simps [of v])
qed

lemma varint_Nil:
  "writeVarint v [] = (if 0x80 \<le> v then ucast ((v AND 0x7F) OR 0x80) # writeVarint (drop_bit 7 v) []
                       else [ucast (v AND 0x7F)])"
  using writeVarint_append [of "drop_bit 7 v" "[ucast ((v AND 0x7F) OR 0x80)]" "[]"]
  by (simp add: writeVarint.simps [of v])

lemma writeVarint_eq: "writeVarint v d = d @ writeVarint v []"
  using writeVarint_append [of v d "[]"] by simp

lemma varint_ne_Nil [simp]: "writeVarint v d \<noteq> []"
  using writeVarint_eq [of v d] by (auto simp: varint_Nil)

lemma varint_split: "(acc OR push_bit s (take_bit 7 v)) OR push_bit (s + 7) (drop_bit 7 v) = acc OR push_bit s (v :: quint64)"
proof (rule bit_word_eqI)
  fix n
  have "s + 7 \<le> n \<Longrightarrow> 7 + (n - (s + 7)) = n - s" by arith
  then show "bit ((acc OR push_bit s (take_bit 7 v)) OR push_bit (s + 7) (drop_bit 7 v)) n = bit (acc OR push_bit s v) n"
    by (cases "s + 7 \<le> n") (auto simp: bit_simps)
qed

lemma readVarint_loop_write:
  assumes "unat v < 2 ^ (64 - s)" "s < 64"
  shows "readVarint_loop (pre @ writeVarint v [] @ post) (int (length pre)) s acc =
         Rd (acc OR push_bit s v) (int (length pre) + int (length (writeVarint v [])))"
  using assms
proof (induction "unat v" arbitrary: v s acc pre rule: less_induct)
  case less
  let ?d = "pre @ writeVarint v [] @ post"
  show ?case
  proof (cases "0x80 \<le> v")
    case False
    then have v: "writeVarint v [] = [ucast (v AND 0x7F)]"
      by (simp add: varint_Nil)
    show ?thesis
      using varint_last_byte [OF False] by (subst readVarint_loop.simps) (simp add: v Let_def nth_append)
  next
    case True
    let ?b = "ucast ((v AND 0x7F) OR 0x80) :: byte"
    have v: "writeVarint v [] = ?b # writeVarint (drop_bit 7 v) []"
      using True by (simp add: varint_Nil)
    have big: "128 \<le> unat v" using True by (simp add: ge_0x80_unat)
    have s: "s + 7 < 64"
    proof (rule ccontr)
      assume "\<not> ?thesis"
      then have "(2::nat) ^ (64 - s) \<le> 2 ^ 7" by (intro power_increasing) auto
      with less.prems big show False by simp
    qed
    have small: "unat (drop_bit 7 v) < 2 ^ (64 - (s + 7))"
    proof -
      have "64 - s = (64 - (s + 7)) + 7" using s by arith
      then have "(2::nat) ^ (64 - s) = 2 ^ (64 - (s + 7)) * 128"
        by (simp only: power_add) simp
      then show ?thesis using less.prems by (simp add: unat_drop_bit_7 less_mult_imp_div_less)
    qed
    have smaller: "unat (drop_bit 7 v) < unat v"
      using big by (simp add: unat_drop_bit_7)
    have "readVarint_loop ?d (int (length pre)) s acc =
          readVarint_loop ((pre @ [?b]) @ writeVarint (drop_bit 7 v) [] @ post) (int (length (pre @ [?b]))) (s + 7)
            (acc OR push_bit s (take_bit 7 v))"
      using varint_byte_more [of v] varint_byte_value [of v] s
      by (subst readVarint_loop.simps) (simp add: v Let_def nth_append add.commute)
    also have "\<dots> = Rd ((acc OR push_bit s (take_bit 7 v)) OR push_bit (s + 7) (drop_bit 7 v))
                  (int (length (pre @ [?b])) + int (length (writeVarint (drop_bit 7 v) [])))"
      by (rule less.hyps [OF smaller small s])
    also have "\<dots> = Rd (acc OR push_bit s v) (int (length pre) + int (length (writeVarint v [])))"
      by (simp only: varint_split v) simp
    finally show ?thesis .
  qed
qed

lemma readVarint_write:
  "readVarint (pre @ writeVarint v [] @ post) (int (length pre)) =
   Rd v (int (length pre) + int (length (writeVarint v [])))"
  using readVarint_loop_write [of v 0 pre post 0] unsigned_less [of v, where 'a = nat]
  by (simp add: readVarint_def)

lemma tag_value:
  assumes "0 \<le> f" "f < 2 ^ 28" "0 \<le> wt" "wt < 8"
  shows "scast (push_bit 3 (word_of_int f :: 32 word) OR word_of_int wt) = (word_of_int (8 * f + wt) :: 64 word)"
proof -
  have "push_bit 3 f AND wt = 0"
  proof (rule bit_eqI)
    fix n
    have "wt = take_bit 3 wt" using assms by (simp add: take_bit_int_eq_self)
    then show "bit (push_bit 3 f AND wt) n \<longleftrightarrow> bit (0::int) n"
      by (metis (no_types) bit_simps(5) bit_push_bit_iff bit_take_bit_iff bit_0_eq bot_apply bot_bool_def linorder_not_le bit_and_iff)
  qed
  then have "push_bit 3 f OR wt = 8 * f + wt"
    by (simp add: disjunctive_add_eq_or [symmetric] push_bit_eq_mult)
  then have "push_bit 3 (word_of_int f :: 32 word) OR word_of_int wt = word_of_int (8 * f + wt)"
    by (metis of_int_or_eq of_int_push_bit)
  moreover have "sint (word_of_int (8 * f + wt) :: 32 word) = 8 * f + wt"
    using sint_word_of_int_small [of "8 * f + wt"] assms by simp
  ultimately show ?thesis by (simp add: scast_eq)
qed

subsection \<open>Codecs\<close>

text \<open>
  The contract between an encoding and its positional reader: inside any byte array, the reader
  started at the encoding's first byte returns the value and stops right after its last byte.
\<close>

inductive reads :: "(bytes \<Rightarrow> int \<Rightarrow> 'b rd) \<Rightarrow> bytes \<Rightarrow> int \<Rightarrow> 'b list \<Rightarrow> int \<Rightarrow> bool" for rd d where
  reads_Nil: "reads rd d p [] p"
| reads_Cons: "p < int (length d) \<Longrightarrow> rd d p = Rd x q \<Longrightarrow> reads rd d q xs r \<Longrightarrow> reads rd d p (x # xs) r"

inductive_simps reads_Nil_iff: "reads rd d p [] q"
inductive_simps reads_Cons_iff: "reads rd d p (x # xs) r"

locale codec =
  fixes enc :: "'a \<Rightarrow> bytes"
    and rd :: "bytes \<Rightarrow> int \<Rightarrow> 'b rd"
    and val :: "'a \<Rightarrow> 'b"
    and ok :: "'a \<Rightarrow> bool"
  assumes rd_enc: "ok a \<Longrightarrow> length (pre @ enc a @ post) < 2 ^ 31 \<Longrightarrow>
      rd (pre @ enc a @ post) (int (length pre)) = Rd (val a) (int (length pre) + int (length (enc a)))"
    and enc_ne_Nil: "enc a \<noteq> []"
begin

lemma enc_prefix_free:
  assumes "ok a" "ok b" "enc a @ r = enc b @ s" "length (enc a @ r) < 2 ^ 31"
  shows "val a = val b \<and> length (enc a) = length (enc b) \<and> r = s"
proof -
  have "rd (enc a @ r) 0 = Rd (val a) (int (length (enc a)))"
    using rd_enc [of a "[]" r] assms by simp
  moreover have "rd (enc a @ r) 0 = Rd (val b) (int (length (enc b)))"
    using rd_enc [of b "[]" s] assms by (simp add: assms(3))
  ultimately show ?thesis using assms(3) by simp
qed

lemma reads_concat:
  assumes "\<forall>a \<in> set as. ok a" "length (pre @ concat (map enc as) @ post) < 2 ^ 31"
  shows "reads rd (pre @ concat (map enc as) @ post) (int (length pre)) (map val as)
           (int (length pre) + int (length (concat (map enc as))))"
  using assms
proof (induction as arbitrary: pre)
  case Nil
  then show ?case by (simp add: reads_Nil_iff)
next
  case (Cons a as)
  have "reads rd ((pre @ enc a) @ concat (map enc as) @ post) (int (length (pre @ enc a))) (map val as)
          (int (length (pre @ enc a)) + int (length (concat (map enc as))))"
    using Cons.prems by (intro Cons.IH) auto
  moreover have "rd (pre @ enc a @ concat (map enc as) @ post) (int (length pre)) =
      Rd (val a) (int (length pre) + int (length (enc a)))"
    using Cons.prems by (intro rd_enc) auto
  ultimately show ?case
    using enc_ne_Nil [of a] by (auto simp: reads_Cons_iff add.assoc intro!: add_pos_nonneg)
qed

end

interpretation varint: codec "\<lambda>v. writeVarint v []" readVarint "\<lambda>v. v" "\<lambda>_. True"
  by unfold_locales (auto simp: readVarint_write)

subsection \<open>Fields\<close>

text \<open>The calls that build a message; \<open>addBool\<close>, \<open>addFloat\<close> and \<open>addString\<close> are instances.\<close>

datatype proto_add = AddVarint int quint64 | AddFixed32 int quint32 | AddBytes int bytes

fun emit :: "proto_add \<Rightarrow> bytes \<Rightarrow> bytes" where
  "emit (AddVarint n v) = addVarint n v"
| "emit (AddFixed32 n v) = addFixed32 n v"
| "emit (AddBytes n b) = addBytes n b"

definition emit_all :: "proto_add list \<Rightarrow> bytes" where
  "emit_all as = foldl (\<lambda>d a. emit a d) [] as"

fun added_field :: "proto_add \<Rightarrow> ProtoField" where
  "added_field (AddVarint n v) = mkField n 0 v 0 []"
| "added_field (AddFixed32 n v) = mkField n 5 (ucast v) v []"
| "added_field (AddBytes n b) = mkField n 2 0 0 b"

fun add_number :: "proto_add \<Rightarrow> int" where
  "add_number (AddVarint n v) = n"
| "add_number (AddFixed32 n v) = n"
| "add_number (AddBytes n b) = n"

definition add_ok :: "proto_add \<Rightarrow> bool" where
  "add_ok a = (0 \<le> add_number a \<and> add_number a < 2 ^ 28)"

lemma emit_append: "emit a (d @ e) = d @ emit a e"
  by (cases a)
    (simp_all add: addVarint_def addFixed32_def addBytes_def writeTag_def writeVarint_append)

lemma emit_eq: "emit a d = d @ emit a []"
  using emit_append [of a d "[]"] by simp

lemma emit_all_concat: "emit_all as = concat (map (\<lambda>a. emit a []) as)"
proof -
  have "foldl (\<lambda>d a. emit a d) d as = d @ concat (map (\<lambda>a. emit a []) as)" for d
  proof (induction as arbitrary: d)
    case (Cons a as)
    show ?case using Cons [of "emit a d"] by (simp add: emit_eq [of a d])
  qed simp
  then show ?thesis by (simp add: emit_all_def)
qed

lemma emit_ne_Nil: "emit a [] \<noteq> []"
  by (cases a) (simp_all add: addVarint_def addFixed32_def addBytes_def writeTag_def)

lemma tag_fields:
  assumes "0 \<le> f" "f < 2 ^ 28" "0 \<le> wt" "wt < 8"
  defines "t \<equiv> (word_of_int (8 * f + wt) :: quint64)"
  shows "int_of_u64 (drop_bit 3 t) = f" "uint (t AND 7) = wt"
proof -
  have t: "uint t = 8 * f + wt"
    using assms uint_word_of_int_small [of "8 * f + wt", where 'a = 64] by simp
  have d: "uint (drop_bit 3 t) = f"
    using t by (simp only: uint_drop_bit) (use assms in simp)
  then show "int_of_u64 (drop_bit 3 t) = f"
    using assms by (simp add: int_of_u64_small)
  have "(7 :: quint64) = mask 3" by (simp add: mask_eq_exp_minus_1)
  then have "uint (t AND 7) = uint t mod 8"
    by (simp only: take_bit_eq_mask [symmetric] unsigned_take_bit_eq take_bit_eq_mod)
      (simp add: uint_mod_distrib)
  then show "uint (t AND 7) = wt" using assms t by simp
qed

lemma readTag:
  assumes "0 \<le> f" "f < 2 ^ 28" "0 \<le> wt" "wt < 8"
  obtains T where "\<And>pre post. readVarint (pre @ writeTag f wt [] @ post) (int (length pre)) =
        Rd T (int (length pre) + int (length (writeTag f wt [])))"
    and "int_of_u64 (drop_bit 3 T) = f" and "uint (T AND 7) = wt"
proof (rule that)
  show "readVarint (pre @ writeTag f wt [] @ post) (int (length pre)) =
      Rd (word_of_int (8 * f + wt)) (int (length pre) + int (length (writeTag f wt [])))" for pre post
    unfolding writeTag_def tag_value [OF assms] by (rule readVarint_write)
qed (rule tag_fields [OF assms])+

lemma readField_tag:
  assumes T: "readVarint d p = Rd T q" "int_of_u64 (drop_bit 3 T) = n" "uint (T AND 7) = wt"
    and p: "p < int (length d)"
  shows "wt = 0 \<Longrightarrow> readVarint d q = Rd v r \<Longrightarrow> readField d p = Rd (mkField n 0 v 0 []) r"
    and "wt = 5 \<Longrightarrow> wrap32 (q + 4) \<le> int (length d) \<Longrightarrow> le32_at d q = Some bits \<Longrightarrow>
      readField d p = Rd (mkField n 5 (ucast bits) bits []) (wrap32 (q + 4))"
    and "wt = 2 \<Longrightarrow> readVarint d q = Rd len r \<Longrightarrow> wrap32 (r + int_of_u64 len) \<le> int (length d) \<Longrightarrow>
      readField d p = Rd (mkField n 2 0 0 (qba_mid d r (int_of_u64 len))) (wrap32 (r + int_of_u64 len))"
  using assms by (simp_all add: readField_def Let_def)

lemma le32_at_bytes:
  fixes v :: quint32
  shows "le32_at (pre @ [ucast (v AND 0xFF), ucast (drop_bit 8 v AND 0xFF), ucast (drop_bit 16 v AND 0xFF),
      ucast (drop_bit 24 v AND 0xFF)] @ post) (int (length pre)) = Some v"
proof -
  let ?d = "pre @ [ucast (v AND 0xFF), ucast (drop_bit 8 v AND 0xFF), ucast (drop_bit 16 v AND 0xFF), ucast (drop_bit 24 v AND 0xFF)] @ post"
  have "(ucast (?d ! length pre) :: quint32) OR push_bit 8 (ucast (?d ! (length pre + 1))) OR push_bit 16 (ucast (?d ! (length pre + 2)))
      OR push_bit 24 (ucast (?d ! (length pre + 3))) = v"
  proof (rule bit_word_eqI)
    fix n assume "n < LENGTH(32)"
    then consider "n < 8" | "8 \<le> n" "n < 16" | "16 \<le> n" "n < 24" | "24 \<le> n" "n < 32"
      by fastforce
    then show "bit ((ucast (?d ! length pre) :: quint32) OR push_bit 8 (ucast (?d ! (length pre + 1))) OR push_bit 16 (ucast (?d ! (length pre + 2)))
        OR push_bit 24 (ucast (?d ! (length pre + 3)))) n = bit v n"
      by cases (auto simp: nth_append bit_simps)
  qed
  then show ?thesis by (simp add: le32_at_def)
qed

lemma readField_emit:
  assumes "add_ok a" "length (pre @ emit a [] @ post) < 2 ^ 31"
  shows "readField (pre @ emit a [] @ post) (int (length pre)) =
     Rd (added_field a) (int (length pre) + int (length (emit a [])))"
proof -
  have p: "int (length pre) < int (length (pre @ emit a [] @ post))"
    using emit_ne_Nil [of a] by (cases "emit a []") simp_all
  show ?thesis
proof (cases a)
  case (AddVarint n v)
  then have f: "added_field a = mkField n 0 v 0 []" by simp
  from AddVarint have n: "0 \<le> n" "n < 2 ^ 28" using assms by (simp_all add: add_ok_def)
  obtain T where T: "\<And>pre post. readVarint (pre @ writeTag n 0 [] @ post) (int (length pre)) =
        Rd T (int (length pre) + int (length (writeTag n 0 [])))"
      "int_of_u64 (drop_bit 3 T) = n" "uint (T AND 7) = 0"
    by (rule readTag [OF n, of 0]) simp_all
  have e: "emit a [] = writeTag n 0 [] @ writeVarint v []"
    using AddVarint writeVarint_eq [of v "writeTag n 0 []"] by (simp add: addVarint_def)
  show ?thesis
    using readField_tag(1) [OF T(1) [of pre "writeVarint v [] @ post"] T(2,3), of v]
      readVarint_write [of "pre @ writeTag n 0 []" v post] p
    by (simp add: e f add.assoc)
next
  case (AddFixed32 n v)
  then have f: "added_field a = mkField n 5 (ucast v) v []" by simp
  from AddFixed32 have n: "0 \<le> n" "n < 2 ^ 28" using assms by (simp_all add: add_ok_def)
  obtain T where T: "\<And>pre post. readVarint (pre @ writeTag n 5 [] @ post) (int (length pre)) =
        Rd T (int (length pre) + int (length (writeTag n 5 [])))"
      "int_of_u64 (drop_bit 3 T) = n" "uint (T AND 7) = 5"
    by (rule readTag [OF n, of 5]) simp_all
  define bs :: bytes where "bs = [ucast (v AND 0xFF), ucast (drop_bit 8 v AND 0xFF),
      ucast (drop_bit 16 v AND 0xFF), ucast (drop_bit 24 v AND 0xFF)]"
  have bs: "length bs = 4" by (simp add: bs_def)
  have e: "emit a [] = writeTag n 5 [] @ bs"
    using AddFixed32 by (simp add: addFixed32_def bs_def)
  have len: "length (writeTag n 5 []) + 4 + length pre + length post < 2 ^ 31"
    using assms(2) bs by (simp add: e)
  have "le32_at ((pre @ writeTag n 5 []) @ bs @ post) (int (length (pre @ writeTag n 5 []))) = Some v"
    unfolding bs_def by (rule le32_at_bytes)
  then have "le32_at (pre @ writeTag n 5 [] @ bs @ post) (int (length pre) + int (length (writeTag n 5 []))) = Some v"
    by simp
  then show ?thesis
    using readField_tag(2) [OF T(1) [of pre "bs @ post"] T(2,3)] len bs p
    by (simp add: e f nat_add_distrib)
next
  case (AddBytes n b)
  then have f: "added_field a = mkField n 2 0 0 b" by simp
  from AddBytes have n: "0 \<le> n" "n < 2 ^ 28" using assms by (simp_all add: add_ok_def)
  obtain T where T: "\<And>pre post. readVarint (pre @ writeTag n 2 [] @ post) (int (length pre)) =
        Rd T (int (length pre) + int (length (writeTag n 2 [])))"
      "int_of_u64 (drop_bit 3 T) = n" "uint (T AND 7) = 2"
    by (rule readTag [OF n, of 2]) simp_all
  define len where "len = (word_of_nat (length b) :: quint64)"
  have e: "emit a [] = writeTag n 2 [] @ writeVarint len [] @ b"
    using AddBytes writeVarint_eq [of len "writeTag n 2 []"] by (simp add: addBytes_def len_def)
  have total: "length pre + length (writeTag n 2 []) + length (writeVarint len []) + length b + length post < 2 ^ 31"
    using assms(2) by (simp only: e length_append)
  then have "uint len = int (length b)"
    using uint_word_of_int_small [of "int (length b)", where 'a = 64] by (simp add: len_def)
  then have l: "int_of_u64 len = int (length b)"
    using total by (simp add: int_of_u64_small)
  have "readVarint (pre @ writeTag n 2 [] @ writeVarint len [] @ b @ post)
          (int (length pre) + int (length (writeTag n 2 []))) =
        Rd len (int (length pre) + int (length (writeTag n 2 [])) + int (length (writeVarint len [])))"
    using readVarint_write [of "pre @ writeTag n 2 []" len "b @ post"] by simp
  moreover have "qba_mid (pre @ writeTag n 2 [] @ writeVarint len [] @ b @ post)
      (int (length pre) + int (length (writeTag n 2 [])) + int (length (writeVarint len []))) (int (length b)) = b"
    using qba_mid_append [of "pre @ writeTag n 2 [] @ writeVarint len []" b post] by (simp add: add.assoc)
  ultimately show ?thesis
    using readField_tag(3) [OF T(1) [of pre "writeVarint len [] @ b @ post"] T(2,3)] total l p
    by (simp add: e f add.assoc)
qed
qed

interpretation field: codec "\<lambda>a. emit a []" readField added_field add_ok
  by unfold_locales (auto simp: readField_emit emit_ne_Nil)

lemma decode_loop_reads:
  "reads readField d p fs q \<Longrightarrow> decode_loop d p acc = decode_loop d q (acc @ fs)"
proof (induction arbitrary: acc rule: reads.induct)
  case (reads_Cons p x q xs r)
  then show ?case by (simp add: decode_loop.simps [of d p])
qed simp

subsection \<open>What \<open>readField\<close> does to the position\<close>

lemma readVarint_loop_pos:
  "0 \<le> p \<Longrightarrow> readVarint_loop d p s v = Rd w q \<Longrightarrow> p < q \<and> q \<le> int (length d)"
proof (induction d p s v rule: readVarint_loop.induct)
  case (1 d p s v)
  then show ?case
    by (force simp: readVarint_loop.simps [of d p s v] Let_def split: if_splits)
qed

lemma readVarint_pos: "0 \<le> p \<Longrightarrow> readVarint d p = Rd w q \<Longrightarrow> p < q \<and> q \<le> int (length d)"
  by (simp add: readVarint_def readVarint_loop_pos)

lemma readVarint_loop_in_bounds: "0 \<le> p \<Longrightarrow> readVarint_loop d p s v \<noteq> RdOob"
proof (induction d p s v rule: readVarint_loop.induct)
  case (1 d p s v)
  then show ?case
    by (subst readVarint_loop.simps) (auto simp: Let_def)
qed

lemma readVarint_in_bounds: "0 \<le> p \<Longrightarrow> readVarint d p \<noteq> RdOob"
  by (simp add: readVarint_def readVarint_loop_in_bounds)

lemma readField_in_bounds:
  assumes "0 \<le> p" "length d < 2 ^ 31 - 4"
  shows "readField d p \<noteq> RdOob"
proof (cases "readVarint d p")
  case (Rd T q)
  then have q: "0 \<le> q" "q \<le> int (length d)"
    using readVarint_pos [OF assms(1), of d T q] assms(1) by simp_all
  then have "readVarint d q \<noteq> RdOob" by (intro readVarint_in_bounds)
  moreover have "wrap32 (q + 4) = q + 4" using q assms(2) by (intro wrap32_id) simp_all
  then have "wrap32 (q + 4) \<le> int (length d) \<Longrightarrow> le32_at d q \<noteq> None" using q by (simp add: le32_at_def)
  ultimately show ?thesis using Rd by (auto simp: readField_def Let_def split: rd.split option.split)
qed (use readVarint_in_bounds [OF assms(1), of d] in \<open>simp_all add: readField_def Let_def\<close>)

lemma readField_le_length:
  assumes "readField d p = Rd f q" "0 \<le> p"
  shows "q \<le> int (length d)"
proof -
  obtain T r where r: "readVarint d p = Rd T r" "0 \<le> r"
    using assms readVarint_pos [of p d] by (fastforce simp: readField_def Let_def split: rd.splits if_splits)
  show ?thesis
    using assms r readVarint_pos [of r d]
    by (auto simp: readField_def Let_def split: rd.splits if_splits option.splits)
qed

text \<open>
  \<open>length_ok d pos\<close>: if the field at \<open>pos\<close> is length-delimited, the length it declares, read as a C++ \<^verbatim>\<open>int\<close>, is
  not negative, and the end of its payload is an \<^verbatim>\<open>int\<close> too. \<open>lengths_ok d\<close>: so it is for every field that
  is read one after the other from the start of \<open>d\<close>.
\<close>

definition length_ok :: "bytes \<Rightarrow> int \<Rightarrow> bool" where
  "length_ok d pos =
     (case readVarint d pos of
        Rd tag p \<Rightarrow>
          (uint (tag AND 7) = 2 \<longrightarrow>
             (case readVarint d p of
                Rd len q \<Rightarrow> 0 \<le> int_of_u64 len \<and> q + int_of_u64 len < 2 ^ 31
              | _ \<Rightarrow> True))
      | _ \<Rightarrow> True)"

lemma readField_inside: "readField d p = Rd f q \<Longrightarrow> p < int (length d)"
  by (auto simp: readField_def Let_def split: if_splits)

function lengths_from :: "bytes \<Rightarrow> int \<Rightarrow> bool" where
  "lengths_from d pos =
     (length_ok d pos \<and> (case readField d pos of Rd f q \<Rightarrow> (if pos < q then lengths_from d q else True) | _ \<Rightarrow> True))"
  by pat_completeness auto
termination
  by (relation "measure (\<lambda>(d, pos). nat (int (length d) - pos))") (auto dest: readField_inside)

declare lengths_from.simps [simp del]

definition lengths_ok :: "bytes \<Rightarrow> bool" where
  "lengths_ok d = lengths_from d 0"

lemma length_okD:
  "length_ok d pos \<Longrightarrow> readVarint d pos = Rd tag p \<Longrightarrow> uint (tag AND 7) = 2 \<Longrightarrow> readVarint d p = Rd len q \<Longrightarrow>
     0 \<le> int_of_u64 len \<and> q + int_of_u64 len < 2 ^ 31"
  by (simp add: length_ok_def)

lemma readField_advances:
  assumes ok: "length_ok d p" and small: "length d < 2 ^ 31 - 8" and p: "0 \<le> p" and r: "readField d p = Rd f q"
  shows "p < q"
proof -
  have in_range: "p < int (length d)"
    using r by (rule readField_inside)
  obtain tag t where tag: "readVarint d p = Rd tag t"
    using r by (auto simp: readField_def Let_def split: rd.splits if_splits)
  then have t: "p < t" "t \<le> int (length d)" using readVarint_pos [OF p] by blast+
  have fits: "wrap32 (t + 8) = t + 8" "wrap32 (t + 4) = t + 4"
    using t small p by (auto intro!: wrap32_id)
  consider "uint (tag AND 7) = 0" | "uint (tag AND 7) = 1" | "uint (tag AND 7) = 2" | "uint (tag AND 7) = 5"
    using r tag in_range by (auto simp: readField_def Let_def split: if_splits)
  then show ?thesis
  proof cases
    case 1
    then show ?thesis
      using r tag in_range t p readVarint_pos [of t d]
      by (fastforce simp: readField_def Let_def split: rd.splits)
  next
    case 3
    then obtain len u where len: "readVarint d t = Rd len u" and q: "q = wrap32 (u + int_of_u64 len)"
      using r tag in_range by (auto simp: readField_def Let_def split: rd.splits if_splits)
    have "0 \<le> int_of_u64 len" "u + int_of_u64 len < 2 ^ 31"
      using length_okD [OF ok tag 3 len] by auto
    moreover have "t < u" using readVarint_pos [OF _ len] t p by simp
    ultimately show ?thesis using q t p wrap32_id [of "u + int_of_u64 len"] by simp
  qed (use r tag in_range t fits in \<open>auto simp: readField_def Let_def split: if_splits option.splits\<close>)
qed

lemma decode_loop_returns:
  assumes "length d < 2 ^ 31 - 8" "lengths_from d p" "0 \<le> p"
  shows "\<exists>fs. decode_loop d p acc = Some (acc @ fs) \<and> int (length fs) \<le> max 0 (int (length d) - p)"
  using assms(2,3)
proof (induction "nat (int (length d) - p)" arbitrary: p acc rule: less_induct)
  case less
  show ?case
  proof (cases "p < int (length d)")
    case False
    then show ?thesis by (simp add: decode_loop.simps [of d p])
  next
    case True
    show ?thesis
    proof (cases "readField d p")
      case (Rd f q)
      have "p < q"
        using less.prems(1) by (intro readField_advances [OF _ assms(1) less.prems(2) Rd]) (simp add: lengths_from.simps [of d p])
      then have "nat (int (length d) - q) < nat (int (length d) - p)" "lengths_from d q" "0 \<le> q"
        using True less.prems Rd by (auto simp: lengths_from.simps [of d p])
      from less.hyps [OF this] obtain fs where
        "decode_loop d q (acc @ [f]) = Some ((acc @ [f]) @ fs)" "int (length fs) \<le> max 0 (int (length d) - q)"
        by blast
      moreover have "q \<le> int (length d)"
        using readField_le_length [OF Rd less.prems(2)] .
      ultimately show ?thesis
        using Rd True \<open>p < q\<close> by (intro exI [of _ "f # fs"]) (simp add: decode_loop.simps [of d p])
    next
      case (RdFail q)
      with True show ?thesis by (intro exI [of _ "[]"]) (simp add: decode_loop.simps [of d p])
    next
      case RdOob
      with readField_in_bounds [OF less.prems(2)] assms(1) show ?thesis by simp
    qed
  qed
qed

text \<open>What is read out of a payload is no longer than the payload.\<close>

lemma readField_raw_length: "readField d p = Rd f q \<Longrightarrow> length (m_raw f) \<le> length d"
  by (auto simp: readField_def mkField_def Let_def intro: qba_mid_length split: rd.splits if_splits option.splits)

lemma decode_loop_raw_length:
  "decode_loop d p acc = Some fs \<Longrightarrow> \<forall>f \<in> set acc. length (m_raw f) \<le> length d \<Longrightarrow>
     \<forall>f \<in> set fs. length (m_raw f) \<le> length d"
proof (rule decode_loop.raw_induct [where P = "\<lambda>d p acc fs.
      (\<forall>f \<in> set acc. length (m_raw f) \<le> length d) \<longrightarrow> (\<forall>f \<in> set fs. length (m_raw f) \<le> length d)",
      THEN mp])
  fix g d p acc r
  assume IH: "\<And>d p acc r. g d p acc = Some r \<Longrightarrow>
      (\<forall>f \<in> set acc. length (m_raw f) \<le> length d) \<longrightarrow> (\<forall>f \<in> set r. length (m_raw f) \<le> length d)"
    and eq: "(if p < int (length d) then
        (case readField d p of Rd x q \<Rightarrow> g d q (acc @ [x]) | RdFail q \<Rightarrow> Some acc | RdOob \<Rightarrow> None)
      else Some acc) = Some r"
  show "(\<forall>f \<in> set acc. length (m_raw f) \<le> length d) \<longrightarrow> (\<forall>f \<in> set r. length (m_raw f) \<le> length d)"
  proof (cases "\<exists>x q. p < int (length d) \<and> readField d p = Rd x q")
    case True
    then obtain x q where r: "readField d p = Rd x q" "g d q (acc @ [x]) = Some r" using eq by auto
    from IH [OF r(2)] readField_raw_length [OF r(1)] show ?thesis by auto
  next
    case False
    then show ?thesis using eq by (auto split: if_splits rd.splits)
  qed
qed

lemma decode_raw_length: "decode d = Some fs \<Longrightarrow> f \<in> set fs \<Longrightarrow> length (m_raw f) \<le> length d"
  using decode_loop_raw_length [of d 0 "[]" fs] by (simp add: decode_def)

lemma decode_emits:
  assumes "\<forall>a \<in> set as. add_ok a" "length (emit_all as) < 2 ^ 31"
  shows "decode (emit_all as) = Some (map added_field as)"
proof -
  have "reads readField (emit_all as) 0 (map added_field as) (int (length (emit_all as)))"
    using field.reads_concat [of as "[]" "[]"] assms by (simp add: emit_all_concat)
  from decode_loop_reads [OF this, of "[]"] show ?thesis
    by (simp add: decode_def decode_loop.simps [of _ "int (length (emit_all as))"])
qed

subsection \<open>Properties\<close>

text \<open>
  C1: Decoding inverts encoding. Whatever sequence of \<^verbatim>\<open>addVarint\<close>, \<^verbatim>\<open>addFixed32\<close> and \<^verbatim>\<open>addBytes\<close>
  calls builds a message (field numbers below 2^28, message below 2 GiB), \<^verbatim>\<open>ProtoDecoder::decode\<close>
  returns, and returns exactly one field per call, in order, with its number, wire type and value.
\<close>

theorem decode_emit_all:
  assumes "\<forall>a \<in> set as. add_ok a" "length (emit_all as) < 2 ^ 31"
  shows "decode (emit_all as) = Some (map added_field as)"
  by (rule decode_emits [OF assms])

lemma decode_emit_all_witness:
  "decode (emit_all [AddFixed32 1 0xCAFE, AddVarint 2 300, AddBytes 3 [104, 105]]) =
     Some [mkField 1 5 0xCAFE 0xCAFE [], mkField 2 0 300 0 [], mkField 3 2 0 0 [104, 105]]"
proof -
  let ?as = "[AddFixed32 1 0xCAFE, AddVarint 2 300, AddBytes 3 [104, 105]]"
  have "\<forall>a \<in> set ?as. add_ok a" by (simp add: add_ok_def)
  moreover have "length (emit_all ?as) < 2 ^ 31"
    by (simp add: emit_all_def addFixed32_def addVarint_def addBytes_def writeTag_def writeVarint.simps)
  ultimately show ?thesis using decode_emit_all [of ?as] by simp
qed

text \<open>
  C2: Decoding a payload (of less than 2 GiB) returns a list of at most one field per byte, provided no
  length-delimited field declares a length that is negative as an \<^verbatim>\<open>int\<close>, or ends beyond its range.
\<close>

theorem decode_terminates:
  assumes "lengths_ok d" "length d < 2 ^ 31 - 8"
  shows "\<exists>fs. decode d = Some fs \<and> length fs \<le> length d"
  using decode_loop_returns [OF assms(2) assms(1) [unfolded lengths_ok_def], of "[]"] by (auto simp: decode_def)

text \<open>The witness is a name whose bytes look like a length when read from the middle.\<close>

lemma decode_terminates_witness:
  "\<exists>fs. decode [0x1A, 0x06, 0x7A, 0xF0, 0x9F, 0x98, 0x80, 0x78] = Some fs \<and> length fs \<le> 8"
proof -
  let ?d = "[0x1A, 0x06, 0x7A, 0xF0, 0x9F, 0x98, 0x80, 0x78] :: bytes"
  have reads: "readVarint ?d 0 = Rd 0x1A 1" "readVarint ?d 1 = Rd 6 2" "readVarint ?d 8 = RdFail 8"
    by (simp_all add: readVarint_def readVarint_loop.simps Let_def)
  then have "readField ?d 0 = Rd (mkField 3 2 0 0 (qba_mid ?d 2 6)) 8" "readField ?d 8 = RdFail 8"
    by (simp_all add: readField_def int_of_u64_def Let_def)
  then have "lengths_ok ?d"
    using reads by (simp add: lengths_ok_def lengths_from.simps length_ok_def int_of_u64_def)
  moreover have "length ?d = 8" by simp
  then have "length ?d < 2 ^ 31 - 8" by (simp only:) simp
  ultimately obtain fs where "decode ?d = Some fs" "length fs \<le> length ?d" using decode_terminates by blast
  with \<open>length ?d = 8\<close> show ?thesis by metis
qed

text \<open>
  C35: The proviso of the previous property is needed. \<^verbatim>\<open>readField\<close> casts the declared length to \<^verbatim>\<open>int\<close> before it
  compares it, so a length of 2^32 - 6 passes the bounds check and moves \<^verbatim>\<open>m_pos\<close> back to the start
  of the field: on these six bytes \<^verbatim>\<open>ProtoDecoder::decode\<close> appends fields for ever.
\<close>

theorem decode_never_returns: "decode [0x0A, 0xFA, 0xFF, 0xFF, 0xFF, 0x0F] = None"
proof -
  let ?d = "[0x0A, 0xFA, 0xFF, 0xFF, 0xFF, 0x0F] :: bytes"
  have jump: "readField ?d 0 = Rd (mkField 1 2 0 0 []) 0"
    by (simp add: readField_def readVarint_def readVarint_loop.simps int_of_u64_def
        wrap32_def qba_mid_def Let_def)
  have "decode_loop ?d 0 acc \<noteq> Some r" for acc r
  proof
    assume ret: "decode_loop ?d 0 acc = Some r"
    have "\<not> (?d = ?d \<and> (0::int) = 0)"
    proof (rule decode_loop.raw_induct [where P = "\<lambda>d p acc r. \<not> (d = ?d \<and> p = 0)", OF _ ret])
      fix f d p acc r
      assume IH: "\<And>d p acc r. f d p acc = Some r \<Longrightarrow> \<not> (d = ?d \<and> p = 0)"
        and eq: "(if p < int (length d) then
            (case readField d p of Rd x q \<Rightarrow> f d q (acc @ [x]) | RdFail q \<Rightarrow> Some acc | RdOob \<Rightarrow> None)
          else Some acc) = Some r"
      show "\<not> (d = ?d \<and> p = 0)"
        using eq IH [of d 0 "acc @ [mkField 1 2 0 0 []]" r] jump by auto
    qed
    then show False by simp
  qed
  then show ?thesis by (cases "decode ?d") (auto simp: decode_def)
qed

text \<open>
  C36: A read that starts at a position of the array or at its end, of an array of less than 2 GiB less five
  bytes, makes no \<^verbatim>\<open>at\<close> call outside the array (\<open>RdOob\<close>) in any wire type, and on success leaves the position
  at most at the end of the array.
\<close>

theorem readField_bounds:
  assumes "0 \<le> p" "length d < 2 ^ 31 - 4"
  shows "readField d p \<noteq> RdOob \<and> (\<forall>f q. readField d p = Rd f q \<longrightarrow> q \<le> int (length d))"
  using readField_in_bounds [OF assms] readField_le_length [OF _ assms(1)] by blast

lemma readField_bounds_witness: "readField [0x0D, 0x01, 0x02, 0x03] 0 \<noteq> RdOob"
  using readField_bounds [of 0 "[0x0D, 0x01, 0x02, 0x03]"] by simp

end
