(* ===== verification/Noise.thy ===== *)
theory Noise
  imports Prelude
begin

text \<open>
  src/noise.h and src/noise.cpp: the initiator side of Noise_NNpsk0 as a wrapper around the C
  library noise-c.

  noise-c is a submodule, not part of src/: its functions are the fields of a record
  \<open>noise_api\<close>, an argument of every operation. A library call that returns an error code other
  than \<^verbatim>\<open>NOISE_ERROR_NONE\<close> is \<open>None\<close>; the calls that change a state object return the new one. The
  types \<open>'h\<close> and \<open>'c\<close> are the library's handshake and cipher states.
\<close>

datatype noise_action = ActionNone | ActionWriteMessage | ActionReadMessage | ActionSplit | ActionOther

record ('h, 'c) noise_api =
  na_new_by_name :: "string \<Rightarrow> 'h option"
  na_set_prologue :: "bytes \<Rightarrow> 'h \<Rightarrow> 'h"
  na_set_pre_shared_key :: "bytes \<Rightarrow> 'h \<Rightarrow> 'h"
  na_start :: "'h \<Rightarrow> 'h option"
  na_get_action :: "'h \<Rightarrow> noise_action"
  na_write_message :: "nat \<Rightarrow> 'h \<Rightarrow> 'h \<times> bytes option"
  na_read_message :: "bytes \<Rightarrow> nat \<Rightarrow> 'h \<Rightarrow> 'h \<times> bytes option"
  na_split :: "'h \<Rightarrow> ('c \<times> 'c) option"
  na_mac_length :: "'c \<Rightarrow> nat"
  na_encrypt :: "bytes \<Rightarrow> nat \<Rightarrow> 'c \<Rightarrow> 'c \<times> bytes option"
  na_decrypt :: "bytes \<Rightarrow> 'c \<Rightarrow> 'c \<times> bytes option"

record ('h, 'c) NoiseNNpsk0 =
  m_handshake :: "'h option"
  m_sendCipher :: "'c option"
  m_recvCipher :: "'c option"
  m_complete :: bool

definition NOISE_PROTOCOL_NAME :: string where
  "NOISE_PROTOCOL_NAME = ''Noise_NNpsk0_25519_ChaChaPoly_SHA256''"

text \<open>\<^verbatim>\<open>"NoiseAPIInit"\<close> and two zero bytes.\<close>

definition NOISE_PROLOGUE :: bytes where
  "NOISE_PROLOGUE = [78, 111, 105, 115, 101, 65, 80, 73, 73, 110, 105, 116, 0, 0]"

definition noise_new :: "('h, 'c) noise_api \<Rightarrow> bytes \<Rightarrow> ('h, 'c) NoiseNNpsk0" where
  "noise_new api psk =
     \<lparr>m_handshake =
        (case na_new_by_name api NOISE_PROTOCOL_NAME of
           None \<Rightarrow> None
         | Some h \<Rightarrow> na_start api (na_set_pre_shared_key api psk (na_set_prologue api NOISE_PROLOGUE h))),
      m_sendCipher = None, m_recvCipher = None, m_complete = False\<rparr>"

definition writeHandshake ::
  "('h, 'c) noise_api \<Rightarrow> ('h, 'c) NoiseNNpsk0 \<Rightarrow> ('h, 'c) NoiseNNpsk0 \<times> bytes" where
  "writeHandshake api n =
     (case m_handshake n of
        None \<Rightarrow> (n, [])
      | Some h \<Rightarrow>
          if na_get_action api h \<noteq> ActionWriteMessage then (n, [])
          else (case na_write_message api 128 h of
                  (h', None) \<Rightarrow> (n\<lparr>m_handshake := Some h'\<rparr>, [])
                | (h', Some message) \<Rightarrow> (n\<lparr>m_handshake := Some h'\<rparr>, message)))"

definition readHandshake ::
  "('h, 'c) noise_api \<Rightarrow> bytes \<Rightarrow> ('h, 'c) NoiseNNpsk0 \<Rightarrow> ('h, 'c) NoiseNNpsk0 \<times> bool" where
  "readHandshake api d n =
     (case m_handshake n of
        None \<Rightarrow> (n, False)
      | Some h \<Rightarrow>
          if na_get_action api h \<noteq> ActionReadMessage then (n, False)
          else (case na_read_message api d 128 h of
                  (h', None) \<Rightarrow> (n\<lparr>m_handshake := Some h'\<rparr>, False)
                | (h', Some payload) \<Rightarrow>
                    if na_get_action api h' \<noteq> ActionSplit then (n\<lparr>m_handshake := Some h'\<rparr>, False)
                    else (case na_split api h' of
                            None \<Rightarrow> (n\<lparr>m_handshake := Some h'\<rparr>, False)
                          | Some (s, r) \<Rightarrow>
                              (n\<lparr>m_handshake := None, m_sendCipher := Some s, m_recvCipher := Some r,
                                 m_complete := True\<rparr>, True))))"

definition encrypt ::
  "('h, 'c) noise_api \<Rightarrow> bytes \<Rightarrow> ('h, 'c) NoiseNNpsk0 \<Rightarrow> ('h, 'c) NoiseNNpsk0 \<times> bytes" where
  "encrypt api plaintext n =
     (case m_sendCipher n of
        None \<Rightarrow> (n, [])
      | Some c \<Rightarrow>
          (case na_encrypt api plaintext (length plaintext + na_mac_length api c) c of
             (c', None) \<Rightarrow> (n\<lparr>m_sendCipher := Some c'\<rparr>, [])
           | (c', Some buffer) \<Rightarrow> (n\<lparr>m_sendCipher := Some c'\<rparr>, buffer)))"

definition decrypt ::
  "('h, 'c) noise_api \<Rightarrow> bytes \<Rightarrow> ('h, 'c) NoiseNNpsk0 \<Rightarrow> ('h, 'c) NoiseNNpsk0 \<times> bytes" where
  "decrypt api ciphertext n =
     (case m_recvCipher n of
        None \<Rightarrow> (n, [])
      | Some c \<Rightarrow>
          (case na_decrypt api ciphertext c of
             (c', None) \<Rightarrow> (n\<lparr>m_recvCipher := Some c'\<rparr>, [])
           | (c', Some buffer) \<Rightarrow> (n\<lparr>m_recvCipher := Some c'\<rparr>, buffer)))"

subsection \<open>Life cycle\<close>

text \<open>
  Both ciphers exist exactly when the handshake is complete, and then the handshake state has been
  freed.
\<close>

definition noise_inv :: "('h, 'c) NoiseNNpsk0 \<Rightarrow> bool" where
  "noise_inv n =
     (if m_complete n then m_handshake n = None \<and> m_sendCipher n \<noteq> None \<and> m_recvCipher n \<noteq> None
      else m_sendCipher n = None \<and> m_recvCipher n = None)"

text \<open>The public operations, in any order, on one object.\<close>

datatype noise_call = CallWriteHandshake | CallReadHandshake bytes | CallEncrypt bytes | CallDecrypt bytes

fun noise_step :: "('h, 'c) noise_api \<Rightarrow> noise_call \<Rightarrow> ('h, 'c) NoiseNNpsk0 \<Rightarrow> ('h, 'c) NoiseNNpsk0" where
  "noise_step api CallWriteHandshake n = fst (writeHandshake api n)"
| "noise_step api (CallReadHandshake d) n = fst (readHandshake api d n)"
| "noise_step api (CallEncrypt d) n = fst (encrypt api d n)"
| "noise_step api (CallDecrypt d) n = fst (decrypt api d n)"

lemmas noise_op_defs = writeHandshake_def readHandshake_def encrypt_def decrypt_def

lemma noise_inv_new [simp]: "noise_inv (noise_new api psk)"
  by (simp add: noise_new_def noise_inv_def)

lemma noise_inv_call: "noise_inv n \<Longrightarrow> noise_inv (noise_step api c n)"
  by (cases c) (auto simp: noise_op_defs noise_inv_def split: option.splits prod.splits if_splits)

lemma noise_inv_calls: "noise_inv n \<Longrightarrow> noise_inv (fold (noise_step api) cs n)"
  by (induction cs arbitrary: n) (simp_all add: noise_inv_call)

lemma complete_call: "m_complete n \<Longrightarrow> m_complete (noise_step api c n)"
  by (cases c) (auto simp: noise_op_defs split: option.splits prod.splits)

lemma readHandshake_complete:
  "noise_inv n \<Longrightarrow> snd (readHandshake api d n) \<longleftrightarrow> m_complete (fst (readHandshake api d n)) \<and> \<not> m_complete n"
  by (auto simp: readHandshake_def noise_inv_def split: option.splits prod.splits)

lemma encrypt_incomplete: "noise_inv n \<Longrightarrow> \<not> m_complete n \<Longrightarrow> encrypt api d n = (n, [])"
  by (simp add: encrypt_def noise_inv_def)

lemma decrypt_incomplete: "noise_inv n \<Longrightarrow> \<not> m_complete n \<Longrightarrow> decrypt api d n = (n, [])"
  by (simp add: decrypt_def noise_inv_def)

text \<open>
  C34: Whatever calls are made on a \<^verbatim>\<open>NoiseNNpsk0\<close> object after its construction, in whatever order
  and with whatever library results, both cipher states exist exactly when \<^verbatim>\<open>complete()\<close> is true;
  then the handshake state has been freed, and before that \<^verbatim>\<open>encrypt\<close> and \<^verbatim>\<open>decrypt\<close> return an empty
  array and change nothing.
\<close>

theorem noise_life_cycle:
  "(m_complete (fold (noise_step api) cs (noise_new api psk)) \<longleftrightarrow>
      m_sendCipher (fold (noise_step api) cs (noise_new api psk)) \<noteq> None) \<and>
   (m_complete (fold (noise_step api) cs (noise_new api psk)) \<longleftrightarrow>
      m_recvCipher (fold (noise_step api) cs (noise_new api psk)) \<noteq> None) \<and>
   (let n = fold (noise_step api) cs (noise_new api psk) in
    if m_complete n then m_handshake n = None
    else encrypt api d n = (n, []) \<and> decrypt api d n = (n, []))"
proof -
  have "noise_inv (fold (noise_step api) cs (noise_new api psk))"
    by (rule noise_inv_calls) simp
  then show ?thesis
    by (auto simp: noise_inv_def encrypt_incomplete decrypt_incomplete Let_def split: if_splits)
qed

end
