(* ===== verification/Framing.thy ===== *)
theory Framing
  imports Noise
begin

text \<open>
  The framing of the native API, shared by src/esphome.cpp (\<^verbatim>\<open>onReadyRead\<close>, \<^verbatim>\<open>sendMessage\<close>) and
  src/tools/debug-client.cpp (\<^verbatim>\<open>FrameReader\<close>, \<^verbatim>\<open>sendFrame\<close>, \<^verbatim>\<open>sendMessage\<close>): a frame is the byte 1, a
  16-bit length, most significant byte first, and that many bytes; inside an encrypted frame, a
  message is a 16-bit type, a 16-bit length and the payload.

  The locale \<open>splitter\<close> is the contract of cutting items off the front of a growing buffer: what is
  behind an item does not matter.
\<close>

definition be16 :: "quint16 \<Rightarrow> bytes" where
  "be16 w = [ucast (drop_bit 8 w AND 0xFF), ucast (w AND 0xFF)]"

definition of_be16 :: "byte \<Rightarrow> byte \<Rightarrow> quint16" where
  "of_be16 hi lo = push_bit 8 (ucast hi) OR ucast lo"

lemma of_be16_be16: "of_be16 (ucast (drop_bit 8 w AND 0xFF)) (ucast (w AND 0xFF)) = w"
proof (rule bit_word_eqI)
  fix n assume "n < LENGTH(16)"
  then consider "n < 8" | "8 \<le> n" "n < 16" by fastforce
  then show "bit (of_be16 (ucast (drop_bit 8 w AND 0xFF)) (ucast (w AND 0xFF))) n = bit w n"
    by cases (auto simp: of_be16_def bit_simps)
qed

subsection \<open>Building frames and messages\<close>

definition frame_of :: "bytes \<Rightarrow> bytes" where
  "frame_of payload = 0x01 # be16 (word_of_nat (length payload)) @ payload"

definition message_inner :: "quint16 \<Rightarrow> bytes \<Rightarrow> bytes" where
  "message_inner mtype payload = be16 mtype @ be16 (word_of_nat (length payload)) @ payload"

text \<open>The receiver's reading of a decrypted message; at least four bytes are present.\<close>

definition parse_inner :: "bytes \<Rightarrow> quint16 \<times> bytes" where
  "parse_inner p = (of_be16 (p ! 0) (p ! 1), qba_mid p 4 (uint (of_be16 (p ! 2) (p ! 3))))"

subsection \<open>Cutting frames off a buffer\<close>

datatype 'f split = Wait | Reject byte | Item 'f bytes

definition next_frame :: "bytes \<Rightarrow> bytes split" where
  "next_frame buf =
     (if length buf < 3 then Wait
      else if buf ! 0 \<noteq> 0x01 then Reject (buf ! 0)
      else let frameSize = of_be16 (buf ! 1) (buf ! 2) in
        if length buf < 3 + unat frameSize then Wait
        else Item (qba_mid buf 3 (uint frameSize)) (drop (3 + unat frameSize) buf))"

function split_all :: "(bytes \<Rightarrow> 'f split) \<Rightarrow> bytes \<Rightarrow> 'f list \<times> bytes" where
  "split_all step b =
     (case step b of
        Item f r \<Rightarrow> (if length r < length b then (case split_all step r of (fs, rest) \<Rightarrow> (f # fs, rest)) else ([], b))
      | _ \<Rightarrow> ([], b))"
  by pat_completeness auto
termination
  by (relation "measure (\<lambda>(step, b). length b)") auto

declare split_all.simps [simp del]

locale splitter =
  fixes step :: "bytes \<Rightarrow> 'f split"
  assumes item_append: "step b = Item f r \<Longrightarrow> step (b @ c) = Item f (r @ c)"
    and reject_append: "step b = Reject x \<Longrightarrow> step (b @ c) = Reject x"
    and item_shrinks: "step b = Item f r \<Longrightarrow> length r < length b"
begin

lemma split_all_Item:
  "step b = Item f r \<Longrightarrow> split_all step b = (f # fst (split_all step r), snd (split_all step r))"
  using item_shrinks [of b f r] by (simp add: split_all.simps [of step b] split: prod.split)

lemma split_all_stop: "step b = Wait \<or> step b = Reject x \<Longrightarrow> split_all step b = ([], b)"
  by (auto simp: split_all.simps [of step b])

lemma split_all_items:
  assumes "\<forall>f \<in> set fs. \<forall>r. step (enc f @ r) = Item f r"
  shows "split_all step (concat (map enc fs) @ r) = (fs @ fst (split_all step r), snd (split_all step r))"
  using assms by (induction fs) (simp_all add: split_all_Item)

end

lemma next_frame_append: "next_frame b = Item f r \<Longrightarrow> next_frame (b @ c) = Item f (r @ c)"
  by (auto simp: next_frame_def Let_def nth_append qba_mid_take split: if_splits)

interpretation frames: splitter next_frame
proof
  fix b c :: bytes and f r x
  show "next_frame b = Item f r \<Longrightarrow> next_frame (b @ c) = Item f (r @ c)"
    by (rule next_frame_append)
  show "next_frame b = Reject x \<Longrightarrow> next_frame (b @ c) = Reject x"
    by (auto simp: next_frame_def Let_def nth_append split: if_splits)
  show "next_frame b = Item f r \<Longrightarrow> length r < length b"
    by (auto simp: next_frame_def Let_def split: if_splits)
qed

lemma unat_word_of_nat_16 [simp]: "n < 2 ^ 16 \<Longrightarrow> unat (word_of_nat n :: quint16) = n"
  by (simp add: unat_of_nat)

lemma next_frame_frame_of:
  assumes "length p < 2 ^ 16"
  shows "next_frame (frame_of p @ rest) = Item p rest"
proof -
  have "uint (word_of_nat (length p) :: quint16) = int (length p)"
    using assms by (simp add: uint_nat)
  then show ?thesis
    using assms by (simp add: next_frame_def frame_of_def be16_def of_be16_be16 Let_def qba_mid_take
        numeral_3_eq_3)
qed

lemma parse_inner_message:
  assumes "length payload < 2 ^ 16"
  shows "parse_inner (message_inner t payload) = (t, payload)"
proof -
  have "uint (word_of_nat (length payload) :: quint16) = int (length payload)"
    using assms by (simp add: uint_nat)
  then show ?thesis
    by (simp add: parse_inner_def message_inner_def be16_def of_be16_be16 qba_mid_take)
qed


subsection \<open>Properties\<close>

text \<open>
  C20: A stream of frames written by \<^verbatim>\<open>sendMessage\<close>'s framing, none longer than 65535 bytes, followed
  by any bytes, is cut back into exactly those payloads, in order.
\<close>

theorem frames_roundtrip:
  assumes "\<forall>p \<in> set ps. length p < 2 ^ 16"
  shows "split_all next_frame (concat (map frame_of ps) @ rest) =
      (ps @ fst (split_all next_frame rest), snd (split_all next_frame rest))"
  by (rule frames.split_all_items) (use assms next_frame_frame_of in blast)

lemma frames_roundtrip_witness:
  "split_all next_frame (concat (map frame_of [[1, 2], []]) @ [1, 0]) = ([[1, 2], []], [1, 0])"
  using frames_roundtrip [of "[[1, 2], []]" "[1, 0]"] by (simp add: split_all.simps next_frame_def)

text \<open>
  C18: A message whose payload has at most 65531 bytes less the cipher's tag reaches the peer whole.
  When the library's decryption inverts its encryption, and a ciphertext is as long as the plaintext
  and the tag, the frame \<^verbatim>\<open>sendMessage\<close> writes is cut off the stream, decrypted and parsed into the
  type and the payload that were sent.
\<close>

theorem message_roundtrip:
  fixes api :: "('h, 'c) noise_api"
  assumes c: "m_sendCipher n = Some c" and r: "m_recvCipher n' = Some r"
    and enc: "na_encrypt api (message_inner t payload)
        (length (message_inner t payload) + na_mac_length api c) c = (c', Some x)"
    and dec: "snd (na_decrypt api x r) = Some (message_inner t payload)"
    and len: "length x = length (message_inner t payload) + na_mac_length api c"
    and small: "length payload + 4 + na_mac_length api c < 2 ^ 16"
  shows "next_frame (frame_of (snd (encrypt api (message_inner t payload) n)) @ rest) = Item x rest \<and>
         parse_inner (snd (decrypt api x n')) = (t, payload)"
proof -
  have "length x < 2 ^ 16"
    using len small by (simp add: message_inner_def be16_def)
  then have "next_frame (frame_of x @ rest) = Item x rest"
    by (rule next_frame_frame_of)
  moreover have "parse_inner (message_inner t payload) = (t, payload)"
    by (rule parse_inner_message) (use small in simp)
  ultimately show ?thesis
    using c r enc dec by (auto simp: encrypt_def decrypt_def split: prod.split)
qed

text \<open>A library instance for witnesses: the \<open>cipher\<close> is a counter, the tag is one byte that holds it.\<close>

definition toy_api :: "(nat, byte) noise_api" where
  "toy_api =
     \<lparr>na_new_by_name = (\<lambda>_. Some 0), na_set_prologue = (\<lambda>_ h. h), na_set_pre_shared_key = (\<lambda>_ h. h),
      na_start = (\<lambda>h. Some 1),
      na_get_action = (\<lambda>h. if h = 1 then ActionWriteMessage else if h = 2 then ActionReadMessage
                          else if h = 3 then ActionSplit else ActionNone),
      na_write_message = (\<lambda>cap h. (2, Some [7])),
      na_read_message = (\<lambda>m cap h. if m = [7] then (3, Some []) else (h, None)),
      na_split = (\<lambda>h. Some (0, 0)),
      na_mac_length = (\<lambda>c. 1),
      na_encrypt = (\<lambda>p cap c. (c + 1, Some (p @ [c]))),
      na_decrypt = (\<lambda>x c. if x \<noteq> [] \<and> last x = c then (c + 1, Some (butlast x)) else (c, None))\<rparr>"

lemma message_roundtrip_witness:
  "next_frame (frame_of (snd (encrypt toy_api (message_inner 7 [5]) \<lparr>m_handshake = None, m_sendCipher = Some 4,
      m_recvCipher = Some 0, m_complete = True\<rparr>)) @ []) = Item (message_inner 7 [5] @ [4]) []"
proof -
  let ?n = "\<lparr>m_handshake = None, m_sendCipher = Some 4, m_recvCipher = Some 0, m_complete = True\<rparr> :: (nat, byte) NoiseNNpsk0"
  let ?n' = "\<lparr>m_handshake = None, m_sendCipher = Some 0, m_recvCipher = Some 4, m_complete = True\<rparr> :: (nat, byte) NoiseNNpsk0"
  have "next_frame (frame_of (snd (encrypt toy_api (message_inner 7 [5]) ?n)) @ []) = Item (message_inner 7 [5] @ [4]) [] \<and>
      parse_inner (snd (decrypt toy_api (message_inner 7 [5] @ [4]) ?n')) = (7, [5])"
    by (rule message_roundtrip [where c = 4 and r = 4 and c' = 5])
      (simp_all add: toy_api_def message_inner_def be16_def)
  then show ?thesis by simp
qed

end
