(* ===== verification/Entity.thy ===== *)
theory Entity
  imports Publish Names Proto Framing
begin

text \<open>
  src/esphome.h and the entity listing of src/esphome.cpp: the message types, the state of an
  \<^verbatim>\<open>EspHomeDevice\<close> (the connection to one device), the record an entity announcement is read into, and
  \<^verbatim>\<open>processEntityInfo\<close>, one step function per announcement message.
\<close>

subsection \<open>Message types\<close>

datatype MsgType =
    HelloRequest | HelloResponse | DisconnectRequest | DisconnectResponse | PingRequest | PingResponse
  | DeviceInfoRequest | DeviceInfoResponse
  | ListEntitiesRequest | ListEntitiesBinary | ListEntitiesCover | ListEntitiesLight | ListEntitiesSensor
  | ListEntitiesSwitch | ListEntitiesTextSensor | ListEntitiesDone | SubscribeStates
  | StateBinary | StateCover | StateLight | StateSensor | StateSwitch | StateTextSensor
  | CoverCommand | LightCommand | SwitchCommand
  | ListEntitiesClimate | StateClimate | ClimateCommand | ListEntitiesNumber | StateNumber | NumberCommand
  | ListEntitiesSelect | StateSelect | SelectCommand | ListEntitiesLock | StateLock | LockCommand
  | ListEntitiesButton | ButtonCommand

fun msg_id :: "MsgType \<Rightarrow> quint16" where
  "msg_id HelloRequest = 1" | "msg_id HelloResponse = 2" | "msg_id DisconnectRequest = 5"
| "msg_id DisconnectResponse = 6" | "msg_id PingRequest = 7" | "msg_id PingResponse = 8"
| "msg_id DeviceInfoRequest = 9" | "msg_id DeviceInfoResponse = 10" | "msg_id ListEntitiesRequest = 11"
| "msg_id ListEntitiesBinary = 12" | "msg_id ListEntitiesCover = 13" | "msg_id ListEntitiesLight = 15"
| "msg_id ListEntitiesSensor = 16" | "msg_id ListEntitiesSwitch = 17" | "msg_id ListEntitiesTextSensor = 18"
| "msg_id ListEntitiesDone = 19" | "msg_id SubscribeStates = 20" | "msg_id StateBinary = 21"
| "msg_id StateCover = 22" | "msg_id StateLight = 24" | "msg_id StateSensor = 25" | "msg_id StateSwitch = 26"
| "msg_id StateTextSensor = 27" | "msg_id CoverCommand = 30" | "msg_id LightCommand = 32"
| "msg_id SwitchCommand = 33" | "msg_id ListEntitiesClimate = 46" | "msg_id StateClimate = 47"
| "msg_id ClimateCommand = 48" | "msg_id ListEntitiesNumber = 49" | "msg_id StateNumber = 50"
| "msg_id NumberCommand = 51" | "msg_id ListEntitiesSelect = 52" | "msg_id StateSelect = 53"
| "msg_id SelectCommand = 54" | "msg_id ListEntitiesLock = 58" | "msg_id StateLock = 59"
| "msg_id LockCommand = 60" | "msg_id ListEntitiesButton = 61" | "msg_id ButtonCommand = 62"

text \<open>The types a \<^verbatim>\<open>switch\<close> on a received number can name.\<close>

definition msg_types :: "MsgType list" where
  "msg_types =
     [HelloRequest, HelloResponse, DisconnectRequest, DisconnectResponse, PingRequest, PingResponse,
      DeviceInfoRequest, DeviceInfoResponse, ListEntitiesRequest, ListEntitiesBinary, ListEntitiesCover,
      ListEntitiesLight, ListEntitiesSensor, ListEntitiesSwitch, ListEntitiesTextSensor, ListEntitiesDone,
      SubscribeStates, StateBinary, StateCover, StateLight, StateSensor, StateSwitch, StateTextSensor,
      CoverCommand, LightCommand, SwitchCommand, ListEntitiesClimate, StateClimate, ClimateCommand,
      ListEntitiesNumber, StateNumber, NumberCommand, ListEntitiesSelect, StateSelect, SelectCommand,
      ListEntitiesLock, StateLock, LockCommand, ListEntitiesButton, ButtonCommand]"

definition msg_of :: "quint16 \<Rightarrow> MsgType option" where
  "msg_of w = List.find (\<lambda>t. msg_id t = w) msg_types"

lemma msg_of_id [simp]: "msg_of (msg_id t) = Some t"
  by (cases t) (simp_all add: msg_of_def msg_types_def)

lemma msg_id_inj: "msg_id s = msg_id t \<longleftrightarrow> s = t"
  by (metis msg_of_id option.inject)

subsection \<open>State\<close>

record EntityInfo =
  ei_key :: quint32
  ei_deviceId :: quint32
  ei_type :: string
  ei_name :: string
  ei_icon :: string
  ei_deviceClass :: string
  ei_unit :: string
  ei_stateClass :: string
  ei_accuracyDecimals :: int
  ei_minValue :: fp
  ei_maxValue :: fp
  ei_step :: fp
  ei_selectOptions :: "string list"
  ei_lightOptions :: "string list"
  ei_minMireds :: fp
  ei_maxMireds :: fp
  ei_supportsPosition :: bool
  ei_supportsTilt :: bool
  ei_climateModes :: "string list"
  ei_climateFanModes :: "string list"
  ei_climatePresets :: "string list"
  ei_climateSupportsAction :: bool
  ei_toggleCategory :: bool

definition entity_new :: EntityInfo where
  "entity_new =
     \<lparr>ei_key = 0, ei_deviceId = 0, ei_type = [], ei_name = [], ei_icon = [], ei_deviceClass = [], ei_unit = [],
      ei_stateClass = [], ei_accuracyDecimals = 0, ei_minValue = fp_zero, ei_maxValue = fp_zero, ei_step = fp_zero,
      ei_selectOptions = [], ei_lightOptions = [], ei_minMireds = fp_zero, ei_maxMireds = fp_zero,
      ei_supportsPosition = False, ei_supportsTilt = False, ei_climateModes = [], ei_climateFanModes = [],
      ei_climatePresets = [], ei_climateSupportsAction = False, ei_toggleCategory = False\<rparr>"

datatype conn_state =
  Disconnected | Connecting | ClientHello | ServerHello | NoiseHandshake | Ready | ListEntities | Subscribe

text \<open>
  What the connection does to its socket, in order, and two things about the socket itself:
  \<open>sock_open\<close>, whether it is connected, and \<open>sock_sync\<close>, whose next element says whether a close
  request is carried out, and \<^verbatim>\<open>disconnected\<close> emitted, before the call returns (an empty list: it is
  not).
\<close>

datatype sock_call = ConnectToHost string quint16 | Write bytes | DisconnectFromHost | Abort

record ('h, 'c) EspHomeDevice =
  m_device :: dref
  m_state :: conn_state
  m_noise :: "('h, 'c) NoiseNNpsk0 option"
  m_rxBuf :: bytes
  m_noiseHandshakeState :: quint8
  m_subDeviceNames :: "(quint32, string) qmap"
  m_pendingEntities :: "EntityInfo list"
  m_pingTimer :: bool
  m_reconnectTimer :: bool
  m_handshakeTimer :: bool
  m_socket :: "sock_call list"
  sock_open :: bool
  sock_sync :: "bool list"

definition EspHomeDevice_new :: "dref \<Rightarrow> ('h, 'c) EspHomeDevice" where
  "EspHomeDevice_new r =
     \<lparr>m_device = r, m_state = Disconnected, m_noise = None, m_rxBuf = [], m_noiseHandshakeState = 0,
      m_subDeviceNames = [], m_pendingEntities = [], m_pingTimer = False, m_reconnectTimer = False,
      m_handshakeTimer = False, m_socket = [], sock_open = False, sock_sync = []\<rparr>"

subsection \<open>Reading an announcement\<close>

definition fld :: "ProtoField \<Rightarrow> int \<Rightarrow> int \<Rightarrow> bool" where
  "fld f number wireType = (m_field f = number \<and> m_wireType f = wireType)"

text \<open>\<^verbatim>\<open>f.string()\<close>, the device id of a field, and \<^verbatim>\<open>if (!xs.contains(x)) xs.append(x)\<close>.\<close>

definition f_string :: "env \<Rightarrow> ProtoField \<Rightarrow> string" where
  "f_string E f = from_utf8 E (m_raw f)"

definition f_deviceId :: "ProtoField \<Rightarrow> quint32" where
  "f_deviceId f = ucast (m_varint f)"

definition append_new :: "'a \<Rightarrow> 'a list \<Rightarrow> 'a list" where
  "append_new x xs = (if x \<in> set xs then xs else xs @ [x])"

definition entity_switch :: "env \<Rightarrow> ProtoField \<Rightarrow> EntityInfo \<Rightarrow> EntityInfo" where
  "entity_switch E f i =
     (if fld f 2 5 then i\<lparr>ei_key := f_fixed32 f\<rparr>
      else if fld f 5 2 then i\<lparr>ei_icon := f_string E f\<rparr>
      else if fld f 8 0 then i\<lparr>ei_toggleCategory := (m_varint f = 1 \<or> m_varint f = 2)\<rparr>
      else if fld f 9 2 then i\<lparr>ei_deviceClass := f_string E f\<rparr>
      else if fld f 10 0 then i\<lparr>ei_deviceId := f_deviceId f\<rparr>
      else i)"

definition entity_binary :: "env \<Rightarrow> ProtoField \<Rightarrow> EntityInfo \<Rightarrow> EntityInfo" where
  "entity_binary E f i =
     (if fld f 2 5 then i\<lparr>ei_key := f_fixed32 f\<rparr>
      else if fld f 5 2 then i\<lparr>ei_deviceClass := f_string E f\<rparr>
      else if fld f 8 2 then i\<lparr>ei_icon := f_string E f\<rparr>
      else if fld f 10 0 then i\<lparr>ei_deviceId := f_deviceId f\<rparr>
      else i)"

definition entity_cover :: "env \<Rightarrow> ProtoField \<Rightarrow> EntityInfo \<Rightarrow> EntityInfo" where
  "entity_cover E f i =
     (if fld f 2 5 then i\<lparr>ei_key := f_fixed32 f\<rparr>
      else if fld f 6 0 then i\<lparr>ei_supportsPosition := f_boolean f\<rparr>
      else if fld f 7 0 then i\<lparr>ei_supportsTilt := f_boolean f\<rparr>
      else if fld f 8 2 then i\<lparr>ei_deviceClass := f_string E f\<rparr>
      else if fld f 10 2 then i\<lparr>ei_icon := f_string E f\<rparr>
      else if fld f 13 0 then i\<lparr>ei_deviceId := f_deviceId f\<rparr>
      else i)"

definition entity_sensor :: "env \<Rightarrow> ProtoField \<Rightarrow> EntityInfo \<Rightarrow> EntityInfo" where
  "entity_sensor E f i =
     (if fld f 2 5 then i\<lparr>ei_key := f_fixed32 f\<rparr>
      else if fld f 5 2 then i\<lparr>ei_icon := f_string E f\<rparr>
      else if fld f 6 2 then i\<lparr>ei_unit := f_string E f\<rparr>
      else if fld f 7 0 then i\<lparr>ei_accuracyDecimals := int_of_u64 (m_varint f)\<rparr>
      else if fld f 9 2 then i\<lparr>ei_deviceClass := f_string E f\<rparr>
      else if fld f 10 0 then
        (if m_varint f = 1 then i\<lparr>ei_stateClass := ''measurement''\<rparr>
         else if m_varint f = 2 then i\<lparr>ei_stateClass := ''total_increasing''\<rparr>
         else if m_varint f = 3 then i\<lparr>ei_stateClass := ''total''\<rparr>
         else i)
      else if fld f 14 0 then i\<lparr>ei_deviceId := f_deviceId f\<rparr>
      else i)"

definition entity_textSensor :: "env \<Rightarrow> ProtoField \<Rightarrow> EntityInfo \<Rightarrow> EntityInfo" where
  "entity_textSensor E f i =
     (if fld f 2 5 then i\<lparr>ei_key := f_fixed32 f\<rparr>
      else if fld f 5 2 then i\<lparr>ei_icon := f_string E f\<rparr>
      else if fld f 8 2 then i\<lparr>ei_deviceClass := f_string E f\<rparr>
      else if fld f 9 0 then i\<lparr>ei_deviceId := f_deviceId f\<rparr>
      else i)"

text \<open>One supported colour mode of a light adds the capabilities it implies.\<close>

definition light_mode :: "quint64 \<Rightarrow> string list \<Rightarrow> string list" where
  "light_mode mode opts =
     (let o1 = (if 3 \<le> mode then append_new ''level'' opts else opts);
          o2 = (if mode = 11 \<or> mode = 47 then append_new ''colorTemperature'' o1 else o1)
      in if mode = 35 \<or> mode = 39 \<or> mode = 47 \<or> mode = 51 then append_new ''color'' o2 else o2)"

definition entity_light :: "env \<Rightarrow> ProtoField \<Rightarrow> EntityInfo \<Rightarrow> EntityInfo" where
  "entity_light E f i =
     (if fld f 2 5 then i\<lparr>ei_key := f_fixed32 f\<rparr>
      else if fld f 9 5 then i\<lparr>ei_minMireds := f_floatVal f\<rparr>
      else if fld f 10 5 then i\<lparr>ei_maxMireds := f_floatVal f\<rparr>
      else if fld f 14 2 then i\<lparr>ei_icon := f_string E f\<rparr>
      else if fld f 16 0 then i\<lparr>ei_deviceId := f_deviceId f\<rparr>
      else if fld f 12 0 then i\<lparr>ei_lightOptions := light_mode (m_varint f) (ei_lightOptions i)\<rparr>
      else i)"

definition append_mode :: "string \<Rightarrow> string list \<Rightarrow> string list" where
  "append_mode m ms = (if m \<noteq> [] then append_new m ms else ms)"

definition entity_climate :: "env \<Rightarrow> ProtoField \<Rightarrow> EntityInfo \<Rightarrow> EntityInfo" where
  "entity_climate E f i =
     (if fld f 2 5 then i\<lparr>ei_key := f_fixed32 f\<rparr>
      else if fld f 19 2 then i\<lparr>ei_icon := f_string E f\<rparr>
      else if fld f 26 0 then i\<lparr>ei_deviceId := f_deviceId f\<rparr>
      else if fld f 7 0 then i\<lparr>ei_climateModes := append_mode (climateModeName (m_varint f)) (ei_climateModes i)\<rparr>
      else if fld f 8 5 then i\<lparr>ei_minValue := f_floatVal f\<rparr>
      else if fld f 9 5 then i\<lparr>ei_maxValue := f_floatVal f\<rparr>
      else if fld f 10 5 then i\<lparr>ei_step := f_floatVal f\<rparr>
      else if fld f 12 0 then i\<lparr>ei_climateSupportsAction := f_boolean f\<rparr>
      else if fld f 13 0 then
        i\<lparr>ei_climateFanModes := append_mode (climateFanModeName (m_varint f)) (ei_climateFanModes i)\<rparr>
      else if fld f 15 2 then i\<lparr>ei_climateFanModes := ei_climateFanModes i @ [f_string E f]\<rparr>
      else if fld f 16 0 then
        i\<lparr>ei_climatePresets := append_mode (climatePresetName (m_varint f)) (ei_climatePresets i)\<rparr>
      else if fld f 17 2 then i\<lparr>ei_climatePresets := ei_climatePresets i @ [f_string E f]\<rparr>
      else i)"

definition entity_select :: "env \<Rightarrow> ProtoField \<Rightarrow> EntityInfo \<Rightarrow> EntityInfo" where
  "entity_select E f i =
     (if fld f 2 5 then i\<lparr>ei_key := f_fixed32 f\<rparr>
      else if fld f 5 2 then i\<lparr>ei_icon := f_string E f\<rparr>
      else if fld f 6 2 then i\<lparr>ei_selectOptions := ei_selectOptions i @ [f_string E f]\<rparr>
      else if fld f 9 0 then i\<lparr>ei_deviceId := f_deviceId f\<rparr>
      else i)"

definition entity_number :: "env \<Rightarrow> ProtoField \<Rightarrow> EntityInfo \<Rightarrow> EntityInfo" where
  "entity_number E f i =
     (if fld f 2 5 then i\<lparr>ei_key := f_fixed32 f\<rparr>
      else if fld f 5 2 then i\<lparr>ei_icon := f_string E f\<rparr>
      else if fld f 6 5 then i\<lparr>ei_minValue := f_floatVal f\<rparr>
      else if fld f 7 5 then i\<lparr>ei_maxValue := f_floatVal f\<rparr>
      else if fld f 8 5 then i\<lparr>ei_step := f_floatVal f\<rparr>
      else if fld f 11 2 then i\<lparr>ei_unit := f_string E f\<rparr>
      else if fld f 14 0 then i\<lparr>ei_deviceId := f_deviceId f\<rparr>
      else i)"

definition entity_lock :: "env \<Rightarrow> ProtoField \<Rightarrow> EntityInfo \<Rightarrow> EntityInfo" where
  "entity_lock E f i =
     (if fld f 2 5 then i\<lparr>ei_key := f_fixed32 f\<rparr>
      else if fld f 5 2 then i\<lparr>ei_icon := f_string E f\<rparr>
      else if fld f 12 0 then i\<lparr>ei_deviceId := f_deviceId f\<rparr>
      else i)"

definition entity_button :: "env \<Rightarrow> ProtoField \<Rightarrow> EntityInfo \<Rightarrow> EntityInfo" where
  "entity_button E f i =
     (if fld f 2 5 then i\<lparr>ei_key := f_fixed32 f\<rparr>
      else if fld f 5 2 then i\<lparr>ei_icon := f_string E f\<rparr>
      else if fld f 8 2 then i\<lparr>ei_deviceClass := f_string E f\<rparr>
      else if fld f 9 0 then i\<lparr>ei_deviceId := f_deviceId f\<rparr>
      else i)"

text \<open>The body of the loop: field 3 is the name for every type, then the \<^verbatim>\<open>switch\<close> on the type.\<close>

definition entity_field :: "env \<Rightarrow> MsgType \<Rightarrow> ProtoField \<Rightarrow> EntityInfo \<Rightarrow> EntityInfo" where
  "entity_field E t f i =
     (if fld f 3 2 then i\<lparr>ei_name := f_string E f\<rparr>
      else case t of
        ListEntitiesSwitch \<Rightarrow> entity_switch E f i
      | ListEntitiesBinary \<Rightarrow> entity_binary E f i
      | ListEntitiesCover \<Rightarrow> entity_cover E f i
      | ListEntitiesSensor \<Rightarrow> entity_sensor E f i
      | ListEntitiesTextSensor \<Rightarrow> entity_textSensor E f i
      | ListEntitiesLight \<Rightarrow> entity_light E f i
      | ListEntitiesClimate \<Rightarrow> entity_climate E f i
      | ListEntitiesSelect \<Rightarrow> entity_select E f i
      | ListEntitiesNumber \<Rightarrow> entity_number E f i
      | ListEntitiesLock \<Rightarrow> entity_lock E f i
      | ListEntitiesButton \<Rightarrow> entity_button E f i
      | _ \<Rightarrow> i)"

definition entity_type :: "MsgType \<Rightarrow> string" where
  "entity_type t =
     (case t of
        ListEntitiesSwitch \<Rightarrow> ''switch''
      | ListEntitiesBinary \<Rightarrow> ''binary_sensor''
      | ListEntitiesCover \<Rightarrow> ''cover''
      | ListEntitiesSensor \<Rightarrow> ''sensor''
      | ListEntitiesTextSensor \<Rightarrow> ''text_sensor''
      | ListEntitiesLight \<Rightarrow> ''light''
      | ListEntitiesClimate \<Rightarrow> ''climate''
      | ListEntitiesSelect \<Rightarrow> ''select''
      | ListEntitiesNumber \<Rightarrow> ''number''
      | ListEntitiesLock \<Rightarrow> ''lock''
      | ListEntitiesButton \<Rightarrow> ''button''
      | _ \<Rightarrow> [])"

definition read_entity :: "env \<Rightarrow> MsgType \<Rightarrow> ProtoField list \<Rightarrow> EntityInfo" where
  "read_entity E t fs = foldl (\<lambda>i f. entity_field E t f i) entity_new fs"

text \<open>\<open>None\<close>: the decoder did not return.\<close>

definition processEntityInfo ::
  "env \<Rightarrow> MsgType \<Rightarrow> bytes \<Rightarrow> ('h, 'c) EspHomeDevice \<Rightarrow> ('h, 'c) EspHomeDevice option" where
  "processEntityInfo E t payload conn =
     map_option (\<lambda>fs.
       let info = read_entity E t fs in
       if ei_key info = 0 then conn
       else conn\<lparr>m_pendingEntities := m_pendingEntities conn @ [info\<lparr>ei_type := entity_type t\<rparr>]\<rparr>) (decode payload)"

subsection \<open>Properties\<close>

lemma read_entity_snoc: "read_entity E t (fs @ [f]) = entity_field E t f (read_entity E t fs)"
  by (simp add: read_entity_def)

text \<open>The pending entities are usable: they have a key and one of the known types.\<close>

definition entity_ok :: "EntityInfo \<Rightarrow> bool" where
  "entity_ok i = (ei_key i \<noteq> 0)"

lemma processEntityInfo_pending:
  assumes "processEntityInfo E t payload conn = Some conn'" "list_all entity_ok (m_pendingEntities conn)"
  shows "list_all entity_ok (m_pendingEntities conn')"
  using assms by (auto simp: processEntityInfo_def Let_def entity_ok_def split: if_splits)

lemma processEntityInfo_only_pending:
  assumes "processEntityInfo E t payload conn = Some conn'"
  shows "conn' = conn\<lparr>m_pendingEntities := m_pendingEntities conn'\<rparr>"
  using assms by (auto simp: processEntityInfo_def Let_def)

definition reports_mode :: "(quint64 \<Rightarrow> bool) \<Rightarrow> ProtoField list \<Rightarrow> bool" where
  "reports_mode P fs = list_ex (\<lambda>f. fld f 12 0 \<and> P (m_varint f)) fs"

lemma append_new_simps [simp]:
  "set (append_new x xs) = insert x (set xs)" "distinct (append_new x xs) = distinct xs"
  by (auto simp: append_new_def)

lemma set_light_mode:
  "set (light_mode m opts) = set opts \<union> (if 3 \<le> m then {''level''} else {}) \<union>
     (if m = 11 \<or> m = 47 then {''colorTemperature''} else {}) \<union>
     (if m = 35 \<or> m = 39 \<or> m = 47 \<or> m = 51 then {''color''} else {})"
  by (auto simp: light_mode_def Let_def)

lemma distinct_light_mode [simp]: "distinct (light_mode m opts) = distinct opts"
  by (simp add: light_mode_def Let_def)

lemma entity_light_options:
  "ei_lightOptions (entity_field E ListEntitiesLight f i) =
     (if fld f 12 0 then light_mode (m_varint f) (ei_lightOptions i) else ei_lightOptions i)"
  by (auto simp: entity_field_def entity_light_def fld_def)

text \<open>
  C30: The capabilities of a light are those its supported colour modes imply, each once: a level for
  any mode from 3 (brightness) up, a colour temperature for modes 11 and 47, a colour for the four
  RGB modes; whatever other fields the announcement has, in whatever order.
\<close>

theorem light_capabilities:
  "let opts = ei_lightOptions (read_entity E ListEntitiesLight fs) in
     distinct opts \<and> set opts \<subseteq> {''level'', ''colorTemperature'', ''color''} \<and>
     (''level'' \<in> set opts) = reports_mode (\<lambda>m. 3 \<le> m) fs \<and>
     (''colorTemperature'' \<in> set opts) = reports_mode (\<lambda>m. m = 11 \<or> m = 47) fs \<and>
     (''color'' \<in> set opts) = reports_mode (\<lambda>m. m = 35 \<or> m = 39 \<or> m = 47 \<or> m = 51) fs"
proof (induction fs rule: rev_induct)
  case Nil
  then show ?case by (simp add: read_entity_def entity_new_def reports_mode_def)
next
  case (snoc f fs)
  then show ?case
    by (auto simp: Let_def read_entity_snoc entity_light_options reports_mode_def set_light_mode)
qed

text \<open>The announcement of a sensor as ESPHome sends it.\<close>

definition sensor_announcement ::
  "bytes \<Rightarrow> quint32 \<Rightarrow> bytes \<Rightarrow> bytes \<Rightarrow> bytes \<Rightarrow> quint64 \<Rightarrow> bytes \<Rightarrow> quint64 \<Rightarrow> quint64 \<Rightarrow> proto_add list" where
  "sensor_announcement objectId key name icon unit decimals deviceClass stateClass deviceId =
     [AddBytes 1 objectId, AddFixed32 2 key, AddBytes 3 name, AddBytes 5 icon, AddBytes 6 unit,
      AddVarint 7 decimals, AddBytes 9 deviceClass, AddVarint 10 stateClass, AddVarint 14 deviceId]"

text \<open>
  C29: A sensor announcement is read field by field: the pending list grows by one entity of type
  \<^verbatim>\<open>sensor\<close> with the announced key, name, icon, unit, precision, device class, state class and
  sub-device; with key 0 it is ignored.
\<close>

theorem sensor_announced:
  assumes "length (emit_all (sensor_announcement oid key name icon unit dec cls sc sub)) < 2 ^ 31"
  shows "processEntityInfo E ListEntitiesSensor (emit_all (sensor_announcement oid key name icon unit dec cls sc sub)) conn =
    Some (if key = 0 then conn else conn\<lparr>m_pendingEntities := m_pendingEntities conn @
      [entity_new\<lparr>ei_key := key, ei_deviceId := ucast sub, ei_type := ''sensor'', ei_name := from_utf8 E name,
         ei_icon := from_utf8 E icon, ei_unit := from_utf8 E unit, ei_accuracyDecimals := int_of_u64 dec,
         ei_deviceClass := from_utf8 E cls,
         ei_stateClass := (if sc = 1 then ''measurement'' else if sc = 2 then ''total_increasing''
                           else if sc = 3 then ''total'' else [])\<rparr>]\<rparr>)"
proof -
  let ?as = "sensor_announcement oid key name icon unit dec cls sc sub"
  have "\<forall>a \<in> set ?as. add_ok a"
    by (simp add: sensor_announcement_def add_ok_def)
  then have "decode (emit_all ?as) = Some (map added_field ?as)"
    by (rule decode_emits) fact
  moreover have "ucast (ucast key :: quint64) = key" by (rule bit_word_eqI) (simp add: bit_simps)
  ultimately show ?thesis
    by (simp add: processEntityInfo_def Let_def read_entity_def sensor_announcement_def entity_field_def entity_sensor_def
        entity_type_def fld_def mkField_def f_string_def f_fixed32_def f_deviceId_def entity_new_def)
qed

lemma sensor_announced_witness:
  "map_option (map (\<lambda>i. (ei_key i, ei_name i, ei_unit i)) \<circ> m_pendingEntities)
     (processEntityInfo ascii_env ListEntitiesSensor
        (emit_all (sensor_announcement [] 7 [84, 48] [] [67] 1 [] 1 0))
        (EspHomeDevice_new 0 :: (nat, nat) EspHomeDevice)) = Some [(7, ''T0'', ''C'')]"
proof -
  have l: "length (emit_all (sensor_announcement [] 7 [84, 48] [] [67] 1 [] 1 0)) < 2 ^ 31"
    by (simp add: emit_all_def sensor_announcement_def addFixed32_def addVarint_def addBytes_def writeTag_def
        writeVarint.simps)
  have "from_utf8 ascii_env [84, 48] = ''T0''" "from_utf8 ascii_env [67] = ''C''"
    by (simp_all add: ascii_env_def) code_simp+
  with sensor_announced [OF l, of ascii_env "EspHomeDevice_new 0 :: (nat, nat) EspHomeDevice"]
  show ?thesis by (simp add: EspHomeDevice_new_def)
qed

end
