(* ===== verification/Discovery.thy ===== *)
theory Discovery
  imports Entity
begin

text \<open>
  src/esphome.cpp: what a finished entity listing does. \<open>applyEntitiesToDevice\<close> rebuilds a device's
  endpoints and options from its entities (object ids, stable numbers of the special entities, one
  endpoint each), \<open>subDevice\<close> finds or creates the device of an ESPHome sub-device, and
  \<open>applyDiscoveredEntities\<close> groups the pending entities and runs both.
\<close>

subsection \<open>Object ids\<close>

definition object_base :: "env \<Rightarrow> EntityInfo \<Rightarrow> string" where
  "object_base E i =
     camelCase E (if ei_name i \<noteq> [] then ei_name i else if ei_deviceClass i \<noteq> [] then ei_deviceClass i else ei_type i)"

fun object_ids :: "env \<Rightarrow> (string, int) qmap \<Rightarrow> EntityInfo list \<Rightarrow> string list" where
  "object_ids E counts [] = []"
| "object_ids E counts (i # is) =
     (let base = object_base E i; count = qm_value counts base 0 + 1 in
      (if 1 < count then base @ qs_number count else base) # object_ids E (qm_insert base count counts) is)"

subsection \<open>Numbers\<close>

definition isSpecialType :: "EntityInfo \<Rightarrow> bool" where
  "isSpecialType i =
     (ei_type i = ''light'' \<or> ei_type i = ''cover'' \<or> ei_type i = ''climate'' \<or> ei_type i = ''lock'' \<or>
      (ei_type i = ''switch'' \<and> \<not> ei_toggleCategory i))"

text \<open>\<^verbatim>\<open>while (taken) number++\<close>\<close>

function next_free :: "int list \<Rightarrow> int \<Rightarrow> int" where
  "next_free taken n = (if n \<in> set taken then next_free taken (n + 1) else n)"
  by pat_completeness auto
termination
proof (relation "measure (\<lambda>(taken, n). card {k \<in> set taken. n \<le> k})")
  show "wf (measure (\<lambda>(taken, n). card {k \<in> set taken. n \<le> k}))" by simp
next
  fix taken :: "int list" and n
  assume "n \<in> set taken"
  then have "{k \<in> set taken. n + 1 \<le> k} \<subset> {k \<in> set taken. n \<le> k}"
    by (intro psubsetI) (auto dest!: equalityD2 [THEN subsetD, of _ _ n])
  then show "((taken, n + 1), taken, n) \<in> measure (\<lambda>(taken, n). card {k \<in> set taken. n \<le> k})"
    using psubset_card_mono [of "{k \<in> set taken. n \<le> k}"] by simp
qed

declare next_free.simps [simp del]

text \<open>
  One special entity: the first slot with its name that is not yet taken in this round, else the
  least number that is in no slot and not taken. \<open>used\<close> is \<^verbatim>\<open>usedThisRound\<close>.
\<close>

definition slot_number :: "(int, string) qmap \<Rightarrow> int list \<Rightarrow> string \<Rightarrow> int" where
  "slot_number slotMap used name =
     (let found = (case List.find (\<lambda>p. snd p = name \<and> fst p \<notin> set used) slotMap of None \<Rightarrow> 0 | Some p \<Rightarrow> fst p) in
      if found = 0 then next_free (map fst slotMap @ used) 1 else found)"

fun special_pass ::
  "EntityInfo list \<Rightarrow> (int, string) qmap \<Rightarrow> int list \<Rightarrow> (int, string) qmap \<times> int list \<times> quint8 list" where
  "special_pass [] slotMap used = (slotMap, used, [])"
| "special_pass (i # is) slotMap used =
     (if \<not> isSpecialType i then
        (case special_pass is slotMap used of (sm, us, ids) \<Rightarrow> (sm, us, 0 # ids))
      else let number = slot_number slotMap used (ei_name i) in
        (case special_pass is (qm_insert number (ei_name i) slotMap) (number # used) of
           (sm, us, ids) \<Rightarrow> (sm, us, word_of_int number # ids)))"

fun common_pass :: "quint8 list \<Rightarrow> int list \<Rightarrow> int \<Rightarrow> quint8 list" where
  "common_pass [] used next = []"
| "common_pass (x # ids) used next =
     (if x \<noteq> 0 then x # common_pass ids used next
      else let n = next_free used next in word_of_int n # common_pass ids (n # used) (n + 1))"

definition endpoint_ids :: "(int, string) qmap \<Rightarrow> EntityInfo list \<Rightarrow> (int, string) qmap \<times> quint8 list" where
  "endpoint_ids slotMap entities =
     (case special_pass entities slotMap [] of (sm, used, ids) \<Rightarrow> (sm, common_pass ids used 1))"

subsection \<open>Endpoints\<close>

definition with_id :: "string \<Rightarrow> quint8 \<Rightarrow> string" where
  "with_id name endpointId = name @ ''_'' @ qs_number (uint endpointId)"

definition insert_both :: "string \<Rightarrow> quint8 \<Rightarrow> variant \<Rightarrow> DeviceObject \<Rightarrow> DeviceObject" where
  "insert_both name endpointId v d = insert_option name v (insert_option (with_id name endpointId) v d)"

definition new_meta :: "EntityInfo \<Rightarrow> string \<Rightarrow> string \<Rightarrow> variant_map" where
  "new_meta i objectId title =
     (let m = vmap [(''key'', VUInt (ei_key i)), (''type'', VStr (ei_type i)), (''objectId'', VStr objectId),
                    (''special'', VBool (isSpecialType i))];
          m = (if 0 < ei_accuracyDecimals i then qm_insert ''round'' (VInt (ei_accuracyDecimals i)) m else m);
          m = insert_str ''icon'' (ei_icon i) m;
          m = qm_insert ''title'' (VStr title) m
      in if ei_type i = ''cover'' then qm_insert ''supportsPosition'' (VBool (ei_supportsPosition i)) m
         else if ei_type i = ''climate'' then
           qm_insert ''climateHasFanMode'' (VBool (ei_climateFanModes i \<noteq> []))
             (qm_insert ''climateHasPreset'' (VBool (ei_climatePresets i \<noteq> [])) m)
         else m)"

definition new_exposes :: "EntityInfo \<Rightarrow> string \<Rightarrow> expose list" where
  "new_exposes i objectId =
     (if ei_type i = ''switch'' then (if ei_toggleCategory i then [ExposeObject objectId] else [SwitchObject])
      else if ei_type i = ''lock'' then [LockObject]
      else if ei_type i = ''binary_sensor'' then [BinaryObject objectId]
      else if ei_type i = ''sensor'' \<or> ei_type i = ''text_sensor'' then [SensorObject objectId]
      else if ei_type i = ''light'' then [LightObject]
      else if ei_type i = ''cover'' then [CoverObject]
      else if ei_type i = ''climate'' then [ThermostatObject]
      else if ei_type i = ''select'' then [SelectObject objectId]
      else if ei_type i = ''number'' then [NumberObject objectId]
      else if ei_type i = ''button'' then [ButtonObject (Some objectId)]
      else [])"

definition switch_options :: "EntityInfo \<Rightarrow> string \<Rightarrow> string \<Rightarrow> quint8 \<Rightarrow> DeviceObject \<Rightarrow> DeviceObject" where
  "switch_options i objectId title endpointId d =
     (let opts = insert_str ''icon'' (ei_icon i) (vmap [(''title'', VStr title)]) in
      if ei_toggleCategory i then
        insert_option objectId (VMap (qm_insert ''control'' (VBool True) (qm_insert ''type'' (VStr ''toggle'') opts))) d
      else insert_option objectId (VMap opts) (insert_option (with_id ''switch'' endpointId) (VMap opts) d))"

definition lock_options :: "EntityInfo \<Rightarrow> string \<Rightarrow> string \<Rightarrow> quint8 \<Rightarrow> DeviceObject \<Rightarrow> DeviceObject" where
  "lock_options i objectId title endpointId d =
     (let opts = insert_str ''icon'' (ei_icon i) (vmap [(''title'', VStr title)]) in
      insert_option objectId (VMap opts) (insert_option (with_id ''lock'' endpointId) (VMap opts) d))"

definition light_options :: "env \<Rightarrow> EntityInfo \<Rightarrow> string \<Rightarrow> quint8 \<Rightarrow> DeviceObject \<Rightarrow> DeviceObject" where
  "light_options E i objectId endpointId d =
     (let opts = VStrList (ei_lightOptions i);
          d1 = insert_option (objectId @ ''_light'') opts (insert_both ''light'' endpointId opts d);
          ct = VMap (vmap [(''min'', VInt (fp_to_int (cast_ub E) (ei_minMireds i))),
                           (''max'', VInt (fp_to_int (cast_ub E) (ei_maxMireds i)))])
      in if fp_pos (ei_minMireds i) \<or> fp_pos (ei_maxMireds i)
         then insert_option (objectId @ ''_colorTemperature'') ct (insert_both ''colorTemperature'' endpointId ct d1)
         else d1)"

definition climate_options :: "EntityInfo \<Rightarrow> string \<Rightarrow> quint8 \<Rightarrow> DeviceObject \<Rightarrow> DeviceObject" where
  "climate_options i title endpointId d =
     (let enum = (\<lambda>xs. VMap (vmap [(''enum'', VStrList xs)]));
          d1 = insert_option (with_id ''thermostat'' endpointId) (VMap (vmap [(''title'', VStr title)])) d;
          d2 = insert_both ''systemMode'' endpointId (enum (ei_climateModes i)) d1;
          d3 = (if ei_climatePresets i \<noteq> [] then insert_both ''operationMode'' endpointId (enum (ei_climatePresets i)) d2 else d2);
          d4 = (if ei_climateFanModes i \<noteq> [] then insert_both ''fanMode'' endpointId (enum (ei_climateFanModes i)) d3 else d3);
          d5 = insert_both ''targetTemperature'' endpointId
                 (VMap (vmap [(''min'', VDouble (ei_minValue i)), (''max'', VDouble (ei_maxValue i)),
                              (''step'', VDouble (if fp_pos (ei_step i) then ei_step i else fp_half))])) d4
      in insert_both ''runningStatus'' endpointId (VBool (ei_climateSupportsAction i)) d5)"

definition new_options :: "env \<Rightarrow> EntityInfo \<Rightarrow> string \<Rightarrow> string \<Rightarrow> quint8 \<Rightarrow> DeviceObject \<Rightarrow> DeviceObject" where
  "new_options E i objectId title endpointId d =
     (let named = (\<lambda>kvs. vmap (kvs @ [(''title'', VStr title)]));
          icon = insert_str ''icon'' (ei_icon i);
          put = (\<lambda>m. insert_option objectId (VMap m) d)
      in if ei_type i = ''switch'' then switch_options i objectId title endpointId d
         else if ei_type i = ''lock'' then lock_options i objectId title endpointId d
         else if ei_type i = ''binary_sensor'' then
           put (icon (insert_str ''class'' (ei_deviceClass i) (named [(''type'', VStr ''binary'')])))
         else if ei_type i = ''sensor'' \<or> ei_type i = ''text_sensor'' then
           (let m = insert_str ''state'' (ei_stateClass i) (insert_str ''class'' (ei_deviceClass i)
                      (insert_str ''unit'' (ei_unit i) (named [(''type'', VStr ''sensor'')])));
                m = (if 0 < ei_accuracyDecimals i then qm_insert ''round'' (VInt (ei_accuracyDecimals i)) m else m)
            in put (icon m))
         else if ei_type i = ''light'' then light_options E i objectId endpointId d
         else if ei_type i = ''cover'' then insert_both ''cover'' endpointId (VStr (ei_deviceClass i)) d
         else if ei_type i = ''climate'' then climate_options i title endpointId d
         else if ei_type i = ''select'' then
           put (icon (named [(''type'', VStr ''select''), (''enum'', VStrList (ei_selectOptions i)), (''control'', VBool True)]))
         else if ei_type i = ''number'' then
           put (insert_str ''unit'' (ei_unit i) (icon
             (named [(''type'', VStr ''number''), (''min'', VDouble (ei_minValue i)), (''max'', VDouble (ei_maxValue i)),
                     (''step'', VDouble (if fp_pos (ei_step i) then ei_step i else fp_one)), (''control'', VBool True)])))
         else if ei_type i = ''button'' then
           put (icon (named [(''type'', VStr ''button''), (''control'', VBool True)]))
         else d)"

definition new_title :: "EntityInfo \<Rightarrow> string \<Rightarrow> string" where
  "new_title i objectId = (if ei_name i = [] then objectId else ei_name i)"

definition discovered_endpoint :: "EntityInfo \<Rightarrow> string \<Rightarrow> quint8 \<Rightarrow> EndpointObject" where
  "discovered_endpoint i objectId endpointId =
     (new_endpoint endpointId)\<lparr>ep_meta := new_meta i objectId (new_title i objectId), ep_exposes := new_exposes i objectId\<rparr>"

definition apply_entity :: "env \<Rightarrow> EntityInfo \<times> string \<times> quint8 \<Rightarrow> DeviceObject \<Rightarrow> DeviceObject" where
  "apply_entity E x d =
     (case x of (i, objectId, endpointId) \<Rightarrow>
        let d' = new_options E i objectId (new_title i objectId) endpointId d in
        d'\<lparr>d_endpoints := qm_insert endpointId (discovered_endpoint i objectId endpointId) (d_endpoints d')\<rparr>)"

definition applyEntitiesToDevice :: "env \<Rightarrow> EntityInfo list \<Rightarrow> DeviceObject \<Rightarrow> DeviceObject" where
  "applyEntitiesToDevice E entities d =
     (case endpoint_ids (d_specialSlots d) entities of (slotMap, ids) \<Rightarrow>
        foldl (\<lambda>d x. apply_entity E x d)
          (d\<lparr>d_endpoints := [], d_options := [], d_specialSlots := slotMap\<rparr>)
          (zip entities (zip (object_ids E [] entities) ids)))"

subsection \<open>Sub-devices\<close>

definition sub_address :: "env \<Rightarrow> DeviceObject \<Rightarrow> string \<Rightarrow> string" where
  "sub_address E d subName = address E d @ ''_'' @ subDeviceAddressSuffix E subName"

definition subDevice :: "service \<Rightarrow> ('h, 'c) EspHomeDevice \<Rightarrow> quint32 \<Rightarrow> world \<Rightarrow> dref \<times> world" where
  "subDevice S conn deviceId W =
     (let E = s_env S;
          main = wdev W (m_device conn);
          subName = qm_value (m_subDeviceNames conn) deviceId (qs_number (uint deviceId));
          addr = sub_address E main subName;
          (r, W1) =
            (case byHost (w_devices W) addr of
               Some r \<Rightarrow> (r, W)
             | None \<Rightarrow>
                 (let fresh = (new_device (c_defaults (s_config S)) subName addr (d_port main) (d_encryptionKey main))
                                \<lparr>d_parentAddress := address E main, d_cloud := d_cloud main\<rparr>;
                      (r, L) = alloc_dev fresh (w_devices W)
                  in (r, W\<lparr>w_devices := append_dev r L\<rparr>)))
      in (r, on_dev r (\<lambda>d. d\<lparr>d_name := subName, d_manufacturerName := d_manufacturerName main,
                             d_modelName := ''Subdev '' @ subName @ '' of '' @ d_name main,
                             d_parentAddress := address E main, d_availability := Online\<rparr>) W1))"

definition group_entities :: "EntityInfo list \<Rightarrow> (quint32, EntityInfo list) qmap" where
  "group_entities is = foldl (\<lambda>m i. qm_insert (ei_deviceId i) (qm_value m (ei_deviceId i) [] @ [i]) m) [] is"

fun apply_groups ::
  "service \<Rightarrow> ('h, 'c) EspHomeDevice \<Rightarrow> (quint32 \<times> EntityInfo list) list \<Rightarrow> dref list \<Rightarrow> world \<Rightarrow> dref list \<times> world" where
  "apply_groups S conn [] touched W = (touched, W)"
| "apply_groups S conn ((k, is) # gs) touched W =
     (if k = 0 then apply_groups S conn gs touched W
      else case subDevice S conn k W of
        (r, W1) \<Rightarrow> apply_groups S conn gs (touched @ [r]) (on_dev r (applyEntitiesToDevice (s_env S) is) W1))"

definition applyDiscoveredEntities :: "service \<Rightarrow> ('h, 'c) EspHomeDevice \<Rightarrow> world \<Rightarrow> world" where
  "applyDiscoveredEntities S conn W =
     (let grouped = group_entities (m_pendingEntities conn);
          W1 = on_dev (m_device conn) (applyEntitiesToDevice (s_env S) (qm_value grouped 0 [])) W
      in case apply_groups S conn grouped [m_device conn] W1 of
           (touched, W2) \<Rightarrow> foldl (\<lambda>W r. entitiesDiscovered S r W) W2 touched)"

subsection \<open>Free numbers\<close>

lemma next_free_spec: "n \<le> next_free taken n \<and> next_free taken n \<notin> set taken \<and> {n..<next_free taken n} \<subseteq> set taken"
proof (induction taken n rule: next_free.induct)
  case (1 taken n)
  show ?case
  proof (cases "n \<in> set taken")
    case True
    with 1 have ih: "n + 1 \<le> next_free taken (n + 1)" "next_free taken (n + 1) \<notin> set taken"
        "{n + 1..<next_free taken (n + 1)} \<subseteq> set taken" by auto
    have "{n..<next_free taken (n + 1)} = insert n {n + 1..<next_free taken (n + 1)}"
      using ih(1) by auto
    then show ?thesis using True ih by (simp add: next_free.simps [of taken n])
  qed (simp add: next_free.simps [of taken n])
qed

lemma next_free_bound:
  assumes "{1..<n} \<subseteq> set taken" "1 \<le> n"
  shows "next_free taken n \<le> 1 + int (card (set taken))"
proof -
  let ?r = "next_free taken n"
  have "{1..<?r} \<subseteq> {1..<n} \<union> {n..<?r}" by auto
  then have "{1..<?r} \<subseteq> set taken"
    using assms(1) next_free_spec [of n taken] by blast
  then have "card {1..<?r} \<le> card (set taken)" by (rule card_mono [rotated]) simp
  then show ?thesis by simp
qed

subsection \<open>The numbers of one discovery\<close>

definition slots_ok :: "(int, string) qmap \<Rightarrow> bool" where
  "slots_ok sm = (qm_sorted sm \<and> list_all (\<lambda>p. 1 \<le> fst p \<and> fst p \<le> 255) sm)"

lemma slots_ok_keys: "slots_ok sm \<Longrightarrow> k \<in> fst ` set sm \<Longrightarrow> 1 \<le> k \<and> k \<le> 255"
  by (auto simp: slots_ok_def list_all_iff)

lemma slots_ok_insert: "slots_ok sm \<Longrightarrow> 1 \<le> n \<Longrightarrow> n \<le> 255 \<Longrightarrow> slots_ok (qm_insert n name sm)"
  by (auto simp: slots_ok_def list_all_iff set_qm_insert)

lemma word8_int [simp]: "1 \<le> n \<Longrightarrow> n \<le> 255 \<Longrightarrow> uint (word_of_int n :: 8 word) = n"
  by (rule uint_word_of_int_small) simp_all

lemma word8_nonzero: "1 \<le> n \<Longrightarrow> n \<le> 255 \<Longrightarrow> word_of_int n \<noteq> (0 :: 8 word)"
  using word8_int [of n] by fastforce

lemma slot_number_spec:
  assumes "slots_ok sm" "set used \<subseteq> fst ` set sm" "card (fst ` set sm) < 255"
  shows "let n = slot_number sm used name in 1 \<le> n \<and> n \<le> 255 \<and> n \<notin> set used \<and> (map_of sm n = None \<or> map_of sm n = Some name)"
proof (cases "List.find (\<lambda>p. snd p = name \<and> fst p \<notin> set used) sm")
  case None
  have k: "set (map fst sm @ used) = fst ` set sm" using assms(2) by auto
  let ?n = "slot_number sm used name"
  have "?n = next_free (map fst sm @ used) 1" using None by (simp add: slot_number_def)
  then have "1 \<le> ?n" "?n \<notin> fst ` set sm" "?n \<le> 1 + int (card (fst ` set sm))"
    using next_free_spec [of 1 "map fst sm @ used"] next_free_bound [of 1 "map fst sm @ used"] k by auto
  then show ?thesis
    using assms(2,3) by (auto simp: Let_def map_of_eq_None_iff)
next
  case (Some p)
  then have p: "p \<in> set sm" "snd p = name" "fst p \<notin> set used"
    by (auto simp: find_Some_iff)
  then have b: "1 \<le> fst p" "fst p \<le> 255" using slots_ok_keys [OF assms(1), of "fst p"] by auto
  moreover have "map_of sm (fst p) = Some name"
    using p assms(1) by (auto simp: slots_ok_def dest: qm_sorted_distinct intro!: map_of_is_SomeI)
  moreover have "slot_number sm used name = fst p" using Some b by (simp add: slot_number_def)
  ultimately show ?thesis using p by (simp add: Let_def)
qed

definition taken_ids :: "quint8 list \<Rightarrow> quint8 list" where
  "taken_ids ids = [x \<leftarrow> ids. x \<noteq> 0]"

lemma taken_ids_simps [simp]:
  "taken_ids [] = []" "taken_ids (x # ids) = (if x = 0 then taken_ids ids else x # taken_ids ids)"
  by (simp_all add: taken_ids_def)

definition slots_grow :: "(int, string) qmap \<Rightarrow> (int, string) qmap \<Rightarrow> bool" where
  "slots_grow sm sm' = (map_of sm \<subseteq>\<^sub>m map_of sm')"

lemma special_pass_spec:
  assumes "slots_ok sm" "set used \<subseteq> fst ` set sm"
    "card (fst ` set sm) + length (filter isSpecialType es) \<le> 255"
    "special_pass es sm used = (sm', used', ids)"
  shows "slots_ok sm' \<and> map_of sm \<subseteq>\<^sub>m map_of sm' \<and> distinct (taken_ids ids) \<and>
    uint ` set (taken_ids ids) \<inter> set used = {} \<and> set used' = set used \<union> uint ` set (taken_ids ids) \<and>
    list_all2 (\<lambda>e x. if isSpecialType e then x \<noteq> 0 \<and> map_of sm' (uint x) = Some (ei_name e) else x = 0) es ids"
  using assms
proof (induction es arbitrary: sm used sm' used' ids)
  case (Cons e es)
  show ?case
  proof (cases "isSpecialType e")
    case False
    with Cons.prems(4) obtain ids' where r: "special_pass es sm used = (sm', used', ids')" "ids = 0 # ids'"
      by (auto split: prod.splits)
    then show ?thesis using Cons.IH [OF Cons.prems(1,2) _ r(1)] Cons.prems(3) False by simp
  next
    case True
    let ?n = "slot_number sm used (ei_name e)"
    let ?w = "word_of_int ?n :: quint8"
    let ?sm = "qm_insert ?n (ei_name e) sm"
    from True Cons.prems(4) obtain ids' where
      r: "special_pass es ?sm (?n # used) = (sm', used', ids')" "ids = ?w # ids'"
      by (auto simp: Let_def split: prod.splits)
    have n: "1 \<le> ?n" "?n \<le> 255" "?n \<notin> set used" "map_of sm ?n = None \<or> map_of sm ?n = Some (ei_name e)"
      using slot_number_spec [OF Cons.prems(1,2), of "ei_name e"] Cons.prems(3) True by (auto simp: Let_def)
    have "card (insert ?n (fst ` set sm)) \<le> Suc (card (fst ` set sm))"
      by (simp add: card_insert_if)
    then have c: "card (fst ` set ?sm) + length (filter isSpecialType es) \<le> 255"
      using Cons.prems(3) True by simp
    have u: "set (?n # used) \<subseteq> fst ` set ?sm"
      using Cons.prems(2) by auto
    have ih: "slots_ok sm'" "map_of ?sm \<subseteq>\<^sub>m map_of sm'" "distinct (taken_ids ids')"
      "uint ` set (taken_ids ids') \<inter> set (?n # used) = {}" "set used' = set (?n # used) \<union> uint ` set (taken_ids ids')"
      "list_all2 (\<lambda>e x. if isSpecialType e then x \<noteq> 0 \<and> map_of sm' (uint x) = Some (ei_name e) else x = 0) es ids'"
      using Cons.IH [OF slots_ok_insert [OF Cons.prems(1) n(1,2)] u c r(1)] by blast+
    have "map_of sm \<subseteq>\<^sub>m map_of ?sm"
      using n(4) by (auto simp: map_le_def dom_def)
    then have "map_of sm \<subseteq>\<^sub>m map_of sm'"
      using ih(2) map_le_trans by blast
    moreover have "map_of sm' ?n = Some (ei_name e)"
      using ih(2) by (simp add: map_le_def dom_def)
    moreover have "?w \<notin> set (taken_ids ids')"
      using ih(4) n word8_int [of ?n] by (metis disjoint_iff image_eqI list.set_intros(1))
    ultimately show ?thesis
      using True n ih r(2) word8_int [OF n(1,2)] word8_nonzero [OF n(1,2)] by auto
  qed
qed simp

lemma common_pass_spec:
  assumes "distinct (taken_ids ids)" "uint ` set (taken_ids ids) \<subseteq> set used" "{1..<next} \<subseteq> set used" "1 \<le> next"
    "card (set used) + length (filter (\<lambda>x. x = 0) ids) \<le> 255"
  shows "let res = common_pass ids used next in
    distinct res \<and> 0 \<notin> set res \<and> uint ` (set res - set (taken_ids ids)) \<inter> set used = {} \<and>
    list_all2 (\<lambda>x y. if x = 0 then y \<notin> set (taken_ids ids) else y = x) ids res"
  using assms
proof (induction ids arbitrary: used "next")
  case (Cons x ids)
  show ?case
  proof (cases "x = 0")
    case False
    let ?res = "common_pass ids used next"
    have ih: "distinct ?res" "0 \<notin> set ?res" "uint ` (set ?res - set (taken_ids ids)) \<inter> set used = {}"
      "list_all2 (\<lambda>x y. if x = 0 then y \<notin> set (taken_ids ids) else y = x) ids ?res"
      using Cons.IH [of used "next"] Cons.prems False by (auto simp: Let_def)
    have x: "x \<notin> set ?res"
      using ih(3) Cons.prems(1,2) False by auto
    have "list_all2 (\<lambda>y z. if y = 0 then z \<notin> set (taken_ids (x # ids)) else z = y) ids ?res"
      by (rule list.rel_mono_strong [OF ih(4)]) (use x in \<open>auto split: if_splits\<close>)
    then show ?thesis
      using False ih x by (auto simp: Let_def)
  next
    case True
    let ?n = "next_free used next"
    let ?w = "word_of_int ?n :: quint8"
    let ?res = "common_pass ids (?n # used) (?n + 1)"
    have n: "next \<le> ?n" "?n \<notin> set used" "{next..<?n} \<subseteq> set used" "?n \<le> 1 + int (card (set used))"
      using next_free_spec [of "next" used] next_free_bound [of "next" used] Cons.prems(3,4) by auto
    have b: "1 \<le> ?n" "?n \<le> 255" using n Cons.prems(4,5) True by auto
    have "{1..<?n + 1} \<subseteq> {1..<next} \<union> {next..<?n} \<union> {?n}" by auto
    then have low: "{1..<?n + 1} \<subseteq> set (?n # used)" using n(3) Cons.prems(3) by auto
    have c: "card (set (?n # used)) + length (filter (\<lambda>x. x = 0) ids) \<le> 255"
      using n(2) Cons.prems(5) True by simp
    have d: "distinct (taken_ids ids)" and u: "uint ` set (taken_ids ids) \<subseteq> set (?n # used)" and one: "1 \<le> ?n + 1"
      using Cons.prems(1,2) True b by auto
    have ih: "distinct ?res" "0 \<notin> set ?res" "uint ` (set ?res - set (taken_ids ids)) \<inter> set (?n # used) = {}"
      "list_all2 (\<lambda>x y. if x = 0 then y \<notin> set (taken_ids ids) else y = x) ids ?res"
      using Cons.IH [OF d u low one c] unfolding Let_def by blast+
    have w: "uint ?w = ?n" using b by simp
    then have t: "?w \<notin> set (taken_ids ids)"
      using Cons.prems(2) True n(2) by (metis image_eqI subsetD taken_ids_simps(2))
    moreover have "?w \<notin> set ?res"
      using ih(3) t w by (metis Diff_iff disjoint_iff image_eqI list.set_intros(1))
    moreover have tk: "taken_ids (x # ids) = taken_ids ids" using True by simp
    ultimately show ?thesis
      unfolding tk using ih True n(2) w word8_nonzero [OF b] by (auto simp: Let_def split del: if_split)
  qed
qed simp

lemma length_filter_nonspecial:
  "list_all2 (\<lambda>e x. if isSpecialType e then x \<noteq> 0 \<and> P e x else x = 0) es ids \<Longrightarrow>
   length (filter (\<lambda>x. x = 0) ids) + length (filter isSpecialType es) = length es \<and>
   length (taken_ids ids) = length (filter isSpecialType es)"
  by (induction es ids rule: list_all2_induct) auto

text \<open>A special entity sits in a slot that holds its name.\<close>

definition holds_slot :: "(int, string) qmap \<Rightarrow> EntityInfo \<Rightarrow> quint8 \<Rightarrow> bool" where
  "holds_slot sm e x = (if isSpecialType e then map_of sm (uint x) = Some (ei_name e) else True)"

text \<open>What one discovery assigns, from well-formed slots with room for every entity.\<close>

lemma endpoint_ids_spec:
  assumes "slots_ok sm" "card (fst ` set sm) + length es \<le> 255" "endpoint_ids sm es = (sm', ids)"
  shows "slots_ok sm' \<and> map_of sm \<subseteq>\<^sub>m map_of sm' \<and> length ids = length es \<and> distinct ids \<and> 0 \<notin> set ids \<and>
    list_all2 (holds_slot sm') es ids"
proof -
  obtain used ids0 where r: "special_pass es sm [] = (sm', used, ids0)" "ids = common_pass ids0 used 1"
    using assms(3) by (auto simp: endpoint_ids_def split: prod.splits)
  have room: "card (fst ` set sm) + length (filter isSpecialType es) \<le> 255"
    using assms(2) length_filter_le [of isSpecialType es] by linarith
  have s: "slots_ok sm'" "map_of sm \<subseteq>\<^sub>m map_of sm'" "distinct (taken_ids ids0)" "set used = uint ` set (taken_ids ids0)"
    and l: "list_all2 (\<lambda>e x. if isSpecialType e then x \<noteq> 0 \<and> map_of sm' (uint x) = Some (ei_name e) else x = 0) es ids0"
    using special_pass_spec [OF assms(1) _ room r(1)] by auto
  have "card (set used) \<le> length (taken_ids ids0)"
    unfolding s(4) by (rule order_trans [OF card_image_le card_length]) simp
  then have c: "card (set used) + length (filter (\<lambda>x. x = 0) ids0) \<le> 255"
    using length_filter_nonspecial [OF l] assms(2) by linarith
  have p: "distinct ids" "0 \<notin> set ids" "list_all2 (\<lambda>x y. if x = 0 then y \<notin> set (taken_ids ids0) else y = x) ids0 ids"
    using common_pass_spec [OF s(3), of used 1] s(4) c r(2) by (auto simp: Let_def)
  have "list_all2 (holds_slot sm') es ids"
    using list_all2_trans [OF _ l p(3), of "holds_slot sm'"]
    by (simp add: holds_slot_def split: if_splits)
  then show ?thesis
    using s(1,2) p l by (auto dest: list_all2_lengthD)
qed

subsection \<open>Numbers keep their meaning\<close>

text \<open>The slot a name finds: the least one that holds it.\<close>

definition first_slot :: "(int, string) qmap \<Rightarrow> string \<Rightarrow> int \<Rightarrow> bool" where
  "first_slot sm name k =
     (map_of sm k = Some name \<and> list_all (\<lambda>p. snd p = name \<longrightarrow> k \<le> fst p) sm)"

lemma first_slot_unique: "first_slot sm name k \<Longrightarrow> first_slot sm name l \<Longrightarrow> k = l"
  unfolding first_slot_def list_all_iff by (metis fst_conv map_of_SomeD order_antisym snd_conv)

lemma first_slot_find:
  assumes "qm_sorted sm" "first_slot sm name k" "\<forall>u \<in> set used. map_of sm u \<noteq> Some name"
  shows "List.find (\<lambda>p. snd p = name \<and> fst p \<notin> set used) sm = Some (k, name)"
proof -
  have m: "(k, name) \<in> set sm" "k \<notin> set used"
    using assms(2,3) by (auto simp: first_slot_def dest: map_of_SomeD)
  then obtain p where p: "List.find (\<lambda>p. snd p = name \<and> fst p \<notin> set used) sm = Some p"
    by (cases "List.find (\<lambda>p. snd p = name \<and> fst p \<notin> set used) sm") (auto simp: find_None_iff)
  then obtain i where i: "i < length sm" "sm ! i = p" "snd p = name"
      "\<forall>j < i. \<not> (snd (sm ! j) = name \<and> fst (sm ! j) \<notin> set used)"
    by (auto simp: find_Some_iff)
  obtain l where l: "l < length sm" "sm ! l = (k, name)" using m by (auto simp: in_set_conv_nth)
  have "k \<le> fst p" using assms(2) i by (auto simp: first_slot_def list_all_iff)
  moreover have "\<not> l < i" using i(4) l m(2) by auto
  then have "fst p \<le> k"
    using assms(1) l i(1,2) sorted_wrt_nth_less [of "(<)" "map fst sm" i l]
    by (cases "i = l") (force simp: qm_sorted_def)+
  ultimately have "p = (k, name)" using i(3) by (cases p) simp
  with p show ?thesis by simp
qed

lemma slot_number_known:
  assumes "slots_ok sm" "first_slot sm name k" "\<forall>u \<in> set used. map_of sm u \<noteq> Some name"
  shows "slot_number sm used name = k"
proof -
  have "k \<in> fst ` set sm" using assms(2) by (force simp: first_slot_def dest: map_of_SomeD)
  then have "k \<noteq> 0" using slots_ok_keys [OF assms(1), of k] by auto
  then show ?thesis
    using first_slot_find [of sm name k used] assms by (simp add: slot_number_def slots_ok_def)
qed

lemma slot_number_new:
  assumes "\<forall>p \<in> set sm. snd p \<noteq> name"
  shows "slot_number sm used name \<notin> fst ` set sm"
proof -
  have "List.find (\<lambda>p. snd p = name \<and> fst p \<notin> set used) sm = None"
    using assms by (auto simp: find_None_iff)
  then show ?thesis
    using next_free_spec [of 1 "map fst sm @ used"] by (simp add: slot_number_def)
qed

lemma first_slot_exists:
  assumes "qm_sorted sm" "p \<in> set sm" "snd p = name"
  shows "\<exists>k. first_slot sm name k"
proof -
  let ?K = "fst ` {p \<in> set sm. snd p = name}"
  have "fst p \<in> ?K" using assms(2,3) by simp
  then have "finite ?K" "?K \<noteq> {}" by auto
  then have "Min ?K \<in> ?K" "\<forall>k \<in> ?K. Min ?K \<le> k" by auto
  then have "first_slot sm name (Min ?K)"
    using assms(1) by (auto simp: first_slot_def list_all_iff dest: qm_sorted_distinct intro!: map_of_is_SomeI)
  then show ?thesis ..
qed

text \<open>Giving a name its number does not change which slot any name finds, if it found one before.\<close>

lemma first_slot_insert:
  assumes "qm_sorted sm" "n = k \<and> first_slot sm name k \<or> (\<forall>p \<in> set sm. snd p \<noteq> name) \<and> n \<notin> fst ` set sm"
  shows "first_slot (qm_insert n name sm) name n"
    and "first_slot sm other l \<Longrightarrow> first_slot (qm_insert n name sm) other l"
proof -
  show "first_slot (qm_insert n name sm) name n"
    using assms(2) by (auto simp: first_slot_def list_all_iff set_qm_insert)
  assume l: "first_slot sm other l"
  have "map_of sm n = None \<or> map_of sm n = Some name"
    using assms(2) by (auto simp: first_slot_def map_of_eq_None_iff)
  moreover have "(l, other) \<in> set sm" using l by (auto simp: first_slot_def dest: map_of_SomeD)
  moreover have "other = name \<Longrightarrow> l = n"
    using assms(2) l first_slot_unique [of sm name l k] calculation(2) by auto
  ultimately show "first_slot (qm_insert n name sm) other l"
    using l assms(2) by (auto simp: first_slot_def list_all_iff set_qm_insert)
qed

lemma special_pass_first:
  assumes "slots_ok sm" "set used \<subseteq> fst ` set sm"
    "card (fst ` set sm) + length (filter isSpecialType es) \<le> 255"
    "special_pass es sm used = (sm', used', ids)"
    "distinct (map ei_name (filter isSpecialType es))"
    "\<forall>u \<in> set used. \<forall>e \<in> set (filter isSpecialType es). map_of sm u \<noteq> Some (ei_name e)"
  shows "(\<forall>name k. first_slot sm name k \<longrightarrow> first_slot sm' name k) \<and>
    list_all2 (\<lambda>e x. isSpecialType e \<longrightarrow> first_slot sm' (ei_name e) (uint x)) es ids"
  using assms
proof (induction es arbitrary: sm used sm' used' ids)
  case (Cons e es)
  show ?case
  proof (cases "isSpecialType e")
    case False
    with Cons.prems(4) obtain ids' where r: "special_pass es sm used = (sm', used', ids')" "ids = 0 # ids'"
      by (auto split: prod.splits)
    then show ?thesis using Cons.IH [OF Cons.prems(1,2) _ r(1)] Cons.prems(3,5,6) False by simp
  next
    case True
    let ?n = "slot_number sm used (ei_name e)"
    let ?sm = "qm_insert ?n (ei_name e) sm"
    from True Cons.prems(4) obtain ids' where
      r: "special_pass es ?sm (?n # used) = (sm', used', ids')" "ids = word_of_int ?n # ids'"
      by (auto simp: Let_def split: prod.splits)
    have n: "1 \<le> ?n" "?n \<le> 255"
      using slot_number_spec [OF Cons.prems(1,2), of "ei_name e"] Cons.prems(3) True by (auto simp: Let_def)
    have s: "qm_sorted sm" using Cons.prems(1) by (simp add: slots_ok_def)
    have "\<exists>k. ?n = k \<and> first_slot sm (ei_name e) k \<or> (\<forall>p \<in> set sm. snd p \<noteq> ei_name e) \<and> ?n \<notin> fst ` set sm"
    proof (cases "\<exists>p \<in> set sm. snd p = ei_name e")
      case True
      then obtain k where "first_slot sm (ei_name e) k" using first_slot_exists [OF s] by blast
      then show ?thesis
        using slot_number_known [OF Cons.prems(1), of "ei_name e" k used] Cons.prems(6) \<open>isSpecialType e\<close> by auto
    qed (use slot_number_new [of sm "ei_name e" used] in auto)
    then obtain k where k: "?n = k \<and> first_slot sm (ei_name e) k \<or> (\<forall>p \<in> set sm. snd p \<noteq> ei_name e) \<and> ?n \<notin> fst ` set sm" ..
    note ins = first_slot_insert [OF s k]
    have c: "card (fst ` set ?sm) + length (filter isSpecialType es) \<le> 255"
      using Cons.prems(3) True card_insert_le_m1 [of "Suc (card (fst ` set sm))" "fst ` set sm" ?n]
      by (simp add: card_insert_if)
    have u: "set (?n # used) \<subseteq> fst ` set ?sm" using Cons.prems(2) by auto
    have d: "distinct (map ei_name (filter isSpecialType es))" "ei_name e \<notin> ei_name ` set (filter isSpecialType es)"
      using Cons.prems(5) True by auto
    have o: "\<forall>v \<in> set (?n # used). \<forall>e \<in> set (filter isSpecialType es). map_of ?sm v \<noteq> Some (ei_name e)"
      using Cons.prems(6) d(2) by auto
    have ih: "\<forall>name k. first_slot ?sm name k \<longrightarrow> first_slot sm' name k"
      "list_all2 (\<lambda>e x. isSpecialType e \<longrightarrow> first_slot sm' (ei_name e) (uint x)) es ids'"
      using Cons.IH [OF slots_ok_insert [OF Cons.prems(1) n] u c r(1) d(1) o] by blast+
    show ?thesis
      using ih ins r(2) n by auto
  qed
qed simp

subsection \<open>The rebuilt device\<close>

text \<open>The options step of an entity touches nothing but the options.\<close>

lemma insert_option_simps [simp]:
  "d_endpoints (insert_option k v d) = d_endpoints d" "d_specialSlots (insert_option k v d) = d_specialSlots d"
  "d_host (insert_option k v d) = d_host d" "saved (insert_option k v d) = saved d"
  by (simp_all add: insert_option_def saved_eq)

lemma insert_both_simps [simp]:
  "d_endpoints (insert_both k n v d) = d_endpoints d"
  "d_specialSlots (insert_both k n v d) = d_specialSlots d"
  "d_host (insert_both k n v d) = d_host d"
  "saved (insert_both k n v d) = saved d"
  by (simp_all add: insert_both_def)

lemma switch_options_simps [simp]:
  "d_endpoints (switch_options i o' t n d) = d_endpoints d"
  "d_specialSlots (switch_options i o' t n d) = d_specialSlots d"
  "d_host (switch_options i o' t n d) = d_host d"
  "saved (switch_options i o' t n d) = saved d"
  by (simp_all add: switch_options_def Let_def)

lemma lock_options_simps [simp]:
  "d_endpoints (lock_options i o' t n d) = d_endpoints d"
  "d_specialSlots (lock_options i o' t n d) = d_specialSlots d"
  "d_host (lock_options i o' t n d) = d_host d"
  "saved (lock_options i o' t n d) = saved d"
  by (simp_all add: lock_options_def Let_def)

lemma light_options_simps [simp]:
  "d_endpoints (light_options E i o' n d) = d_endpoints d"
  "d_specialSlots (light_options E i o' n d) = d_specialSlots d"
  "d_host (light_options E i o' n d) = d_host d"
  "saved (light_options E i o' n d) = saved d"
  by (simp_all add: light_options_def Let_def)

lemma climate_options_simps [simp]:
  "d_endpoints (climate_options i t n d) = d_endpoints d"
  "d_specialSlots (climate_options i t n d) = d_specialSlots d"
  "d_host (climate_options i t n d) = d_host d"
  "saved (climate_options i t n d) = saved d"
  by (simp_all add: climate_options_def Let_def)

lemma new_options_simps [simp]:
  "d_endpoints (new_options E i o' t n d) = d_endpoints d"
  "d_specialSlots (new_options E i o' t n d) = d_specialSlots d"
  "d_host (new_options E i o' t n d) = d_host d"
  "saved (new_options E i o' t n d) = saved d"
  unfolding new_options_def Let_def by simp_all

definition built :: "EntityInfo \<times> string \<times> quint8 \<Rightarrow> quint8 \<times> EndpointObject" where
  "built x = (case x of (i, objectId, endpointId) \<Rightarrow> (endpointId, discovered_endpoint i objectId endpointId))"

lemma apply_entity_simps [simp]:
  "d_endpoints (apply_entity E x d) = qm_insert (fst (built x)) (snd (built x)) (d_endpoints d)"
  "d_specialSlots (apply_entity E x d) = d_specialSlots d"
  "d_host (apply_entity E x d) = d_host d"
  "saved (apply_entity E x d) = saved d"
proof -
  have "saved (d\<lparr>d_endpoints := e\<rparr>) = saved d" for d e by (simp add: saved_def)
  then show "saved (apply_entity E x d) = saved d"
    by (simp add: apply_entity_def Let_def split: prod.split)
qed (simp_all add: apply_entity_def built_def Let_def split: prod.split)

lemma apply_entities_fold:
  "d_endpoints (foldl (\<lambda>d x. apply_entity E x d) d xs) = put_all qm_insert (map built xs) (d_endpoints d) \<and>
   d_specialSlots (foldl (\<lambda>d x. apply_entity E x d) d xs) = d_specialSlots d \<and>
   saved (foldl (\<lambda>d x. apply_entity E x d) d xs) = saved d"
proof (induction xs arbitrary: d)
  case (Cons x xs)
  then show ?case by (cases "built x") simp
qed simp

lemma saved_fields: "saved d = saved e \<Longrightarrow> d_host d = d_host e \<and> d_name d = d_name e \<and> d_parentAddress d = d_parentAddress e
    \<and> d_port d = d_port e \<and> d_encryptionKey d = d_encryptionKey e"
  unfolding saved_eq by simp

lemma applyEntities_saved:
  "saved (applyEntitiesToDevice E es d) = saved (d\<lparr>d_specialSlots := fst (endpoint_ids (d_specialSlots d) es)\<rparr>)"
  by (cases "endpoint_ids (d_specialSlots d) es") (simp add: applyEntitiesToDevice_def apply_entities_fold, simp add: saved_eq)

lemma applyEntities_host [simp]: "d_host (applyEntitiesToDevice E es d) = d_host d"
  using saved_fields [OF applyEntities_saved [of E es d]] by simp

lemma length_object_ids [simp]: "length (object_ids E counts es) = length es"
  by (induction es arbitrary: counts) (simp_all add: Let_def)

lemma distinct_map_imp: "distinct (map f xs) \<Longrightarrow> distinct xs"
  by (simp add: distinct_map)

lemma applyEntities_endpoints:
  assumes "slots_ok (d_specialSlots d)" "card (fst ` set (d_specialSlots d)) + length es \<le> 255"
  defines "ids \<equiv> snd (endpoint_ids (d_specialSlots d) es)"
  shows "qm_sorted (d_endpoints (applyEntitiesToDevice E es d)) \<and>
    set (d_endpoints (applyEntitiesToDevice E es d)) = built ` set (zip es (zip (object_ids E [] es) ids)) \<and>
    length (d_endpoints (applyEntitiesToDevice E es d)) = length es"
proof -
  let ?xs = "zip es (zip (object_ids E [] es) ids)"
  let ?d = "applyEntitiesToDevice E es d"
  obtain sm' where sm': "endpoint_ids (d_specialSlots d) es = (sm', ids)" by (cases "endpoint_ids (d_specialSlots d) es") (simp add: ids_def)
  note spec = endpoint_ids_spec [OF assms(1,2) sm']
  have e: "d_endpoints ?d = put_all qm_insert (map built ?xs) []"
    by (simp add: applyEntitiesToDevice_def sm' apply_entities_fold)
  have "fst (built x) = snd (snd x)" for x by (simp add: built_def split: prod.split)
  then have "map fst (map built ?xs) = map (snd \<circ> snd) ?xs" by simp
  also have "\<dots> = ids" using spec by (simp add: map_snd_zip flip: map_map)
  finally have k: "map fst (map built ?xs) = ids" .
  then have d: "distinct (map fst (map built ?xs))" using spec by simp
  have s: "qm_sorted (d_endpoints ?d)" unfolding e by (simp add: qm_sorted_put_all)
  have set: "set (d_endpoints ?d) = built ` set ?xs" unfolding e using set_put_all [OF d, of "[]"] by simp
  have "length (d_endpoints ?d) = card (set (d_endpoints ?d))"
    using qm_sorted_distinct [OF s] by (simp add: distinct_map distinct_card)
  also have "\<dots> = card (set (map built ?xs))" using set by simp
  also have "\<dots> = length es"
    using distinct_card [OF distinct_map_imp [OF d]] spec by simp
  finally show ?thesis using s set by simp
qed

subsection \<open>Sub-devices keep the list well formed\<close>

lemma dl_inv_on_dev:
  "(\<And>d. d_host (f d) = d_host d) \<Longrightarrow> dl_inv (w_devices W) \<Longrightarrow> dl_inv (w_devices (on_dev r f W))"
  by (simp add: dl_inv_upd_dev)

lemma subDevice_inv:
  assumes "dl_inv (w_devices W)" "subDevice S conn k W = (r, W')"
  shows "dl_inv (w_devices W') \<and> r \<in> set (dlist (w_devices W'))"
proof -
  let ?main = "wdev W (m_device conn)"
  let ?addr = "sub_address (s_env S) ?main (qm_value (m_subDeviceNames conn) k (qs_number (uint k)))"
  show ?thesis
  proof (cases "byHost (w_devices W) ?addr")
    case None
    let ?fresh = "(new_device (c_defaults (s_config S)) (qm_value (m_subDeviceNames conn) k (qs_number (uint k))) ?addr
        (d_port ?main) (d_encryptionKey ?main))\<lparr>d_parentAddress := address (s_env S) ?main, d_cloud := d_cloud ?main\<rparr>"
    have "d_host ?fresh = ?addr" by (simp add: new_device_def)
    then have "dl_inv (append_dev (length (objs (w_devices W))) (snd (alloc_dev ?fresh (w_devices W))))"
      using dl_inv_add [of "w_devices W" ?fresh] assms(1) None by simp
    then show ?thesis
      using assms(2) None by (auto simp: subDevice_def Let_def prod.case_eq_if intro!: dl_inv_upd_dev)
  next
    case (Some s)
    then show ?thesis
      using assms byHost_Some [OF Some] by (auto simp: subDevice_def Let_def intro!: dl_inv_upd_dev)
  qed
qed

lemma apply_groups_inv:
  "dl_inv (w_devices W) \<Longrightarrow> apply_groups S conn gs touched W = (touched', W') \<Longrightarrow> dl_inv (w_devices W')"
proof (induction gs arbitrary: touched W)
  case (Cons g gs)
  obtain k es where g: "g = (k, es)" by (cases g)
  show ?case
  proof (cases "k = 0")
    case False
    obtain r W1 where sub: "subDevice S conn k W = (r, W1)" by (cases "subDevice S conn k W")
    have "dl_inv (w_devices (on_dev r (applyEntitiesToDevice (s_env S) es) W1))"
      using subDevice_inv [OF Cons.prems(1) sub] by (simp add: dl_inv_upd_dev)
    from Cons.IH [OF this, of "touched @ [r]"] show ?thesis using Cons.prems(2) False g sub by simp
  qed (use Cons g in simp)
qed simp

lemma entitiesDiscovered_inv: "dl_inv (w_devices (entitiesDiscovered S r W)) \<longleftrightarrow> dl_inv (w_devices W)"
  by (rule dl_inv_same) (rule same_entitiesDiscovered)

lemma applyDiscoveredEntities_inv:
  assumes "dl_inv (w_devices W)"
  shows "dl_inv (w_devices (applyDiscoveredEntities S conn W))"
proof -
  have f: "dl_inv (w_devices (foldl (\<lambda>W r. entitiesDiscovered S r W) V rs)) \<longleftrightarrow> dl_inv (w_devices V)" for V rs
    by (induction rs arbitrary: V) (simp_all add: entitiesDiscovered_inv)
  let ?g = "group_entities (m_pendingEntities conn)"
  let ?W1 = "on_dev (m_device conn) (applyEntitiesToDevice (s_env S) (qm_value ?g 0 [])) W"
  have "dl_inv (w_devices ?W1)" using assms by (simp add: dl_inv_upd_dev)
  then show ?thesis
    using apply_groups_inv [of ?W1 S conn ?g "[m_device conn]"]
    by (cases "apply_groups S conn ?g [m_device conn] ?W1") (simp add: applyDiscoveredEntities_def f)
qed

lemma endpoint_ids_first:
  assumes "slots_ok s" "card (fst ` set s) + length xs \<le> 255" "endpoint_ids s xs = (t, ids)"
    "distinct (map ei_name (filter isSpecialType xs))" "n < length xs" "isSpecialType (xs ! n)"
  shows "first_slot t (ei_name (xs ! n)) (uint (ids ! n)) \<and> (\<forall>name k. first_slot s name k \<longrightarrow> first_slot t name k)"
proof -
  obtain used ids0 where r: "special_pass xs s [] = (t, used, ids0)" "ids = common_pass ids0 used 1"
    using assms(3) by (auto simp: endpoint_ids_def split: prod.splits)
  have room: "card (fst ` set s) + length (filter isSpecialType xs) \<le> 255"
    using assms(2) length_filter_le [of isSpecialType xs] by linarith
  have sp: "distinct (taken_ids ids0)" "set used = uint ` set (taken_ids ids0)"
    "list_all2 (\<lambda>e x. if isSpecialType e then x \<noteq> 0 \<and> map_of t (uint x) = Some (ei_name e) else x = 0) xs ids0"
    using special_pass_spec [OF assms(1) _ room r(1)] by auto
  have f: "list_all2 (\<lambda>e x. isSpecialType e \<longrightarrow> first_slot t (ei_name e) (uint x)) xs ids0"
      "\<forall>name k. first_slot s name k \<longrightarrow> first_slot t name k"
    using special_pass_first [OF assms(1) _ room r(1) assms(4)] by simp_all
  have nz: "ids0 ! n \<noteq> 0" "n < length ids0"
    using sp(3) assms(5,6) by (simp_all add: list_all2_conv_all_nth)
  have "card (set used) \<le> length (taken_ids ids0)"
    unfolding sp(2) by (rule order_trans [OF card_image_le card_length]) simp
  then have "card (set used) + length (filter (\<lambda>x. x = 0) ids0) \<le> 255"
    using length_filter_nonspecial [OF sp(3)] assms(2) by linarith
  then have "list_all2 (\<lambda>x y. if x = 0 then y \<notin> set (taken_ids ids0) else y = x) ids0 ids"
    using common_pass_spec [OF sp(1), of used 1] sp(2) r(2) by (simp add: Let_def)
  then have "ids ! n = ids0 ! n" using nz by (simp add: list_all2_conv_all_nth)
  then show ?thesis
    using f assms(5,6) by (simp add: list_all2_conv_all_nth)
qed

subsection \<open>Properties\<close>

text \<open>
  C8: A discovery gives every entity an endpoint of its own. From well-formed slots with room for all
  entities, the rebuilt device has exactly one endpoint per entity, under pairwise different numbers
  none of which is 0; a special entity's number is a slot that holds its name; and no slot the device
  had is lost or renamed.
\<close>

theorem discovery_endpoints:
  assumes "slots_ok (d_specialSlots d)" "card (fst ` set (d_specialSlots d)) + length es \<le> 255"
  shows "\<exists>ids. let d' = applyEntitiesToDevice E es d in
     length ids = length es \<and> distinct ids \<and> 0 \<notin> set ids \<and>
     set (d_endpoints d') = built ` set (zip es (zip (object_ids E [] es) ids)) \<and> length (d_endpoints d') = length es \<and>
     list_all2 (holds_slot (d_specialSlots d')) es ids \<and>
     map_of (d_specialSlots d) \<subseteq>\<^sub>m map_of (d_specialSlots d') \<and> slots_ok (d_specialSlots d')"
proof -
  obtain sm' ids where r: "endpoint_ids (d_specialSlots d) es = (sm', ids)"
    by (cases "endpoint_ids (d_specialSlots d) es")
  have "d_specialSlots (applyEntitiesToDevice E es d) = sm'"
    by (simp add: applyEntitiesToDevice_def r apply_entities_fold)
  then show ?thesis
    using endpoint_ids_spec [OF assms r] applyEntities_endpoints [OF assms, of E] r
    by (intro exI [of _ ids]) (simp add: Let_def)
qed

definition two_lights :: "EntityInfo list" where
  "two_lights =
     [entity_new\<lparr>ei_key := 5, ei_type := ''sensor'', ei_name := ''Temp''\<rparr>,
      entity_new\<lparr>ei_key := 6, ei_type := ''light'', ei_name := ''Desk''\<rparr>,
      entity_new\<lparr>ei_key := 7, ei_type := ''light'', ei_name := ''Lamp''\<rparr>]"

lemma discovery_endpoints_witness:
  "length (d_endpoints (applyEntitiesToDevice ascii_env two_lights example_device)) = 3"
proof -
  have "slots_ok (d_specialSlots example_device)" "card (fst ` set (d_specialSlots example_device)) + length two_lights \<le> 255"
    by (simp_all add: example_device_def slots_ok_def qm_sorted_def two_lights_def)
  from discovery_endpoints [OF this, of ascii_env]
  show ?thesis by (auto simp: Let_def two_lights_def)
qed

text \<open>
  C9: Numbers are stable. When a device is discovered again, with other entities added, removed or
  listed in another order, a special entity that keeps its name keeps its number (the special
  entities of each listing have pairwise different names).
\<close>

theorem numbers_stable:
  assumes "slots_ok sm" "card (fst ` set sm) + length es \<le> 255" "endpoint_ids sm es = (sm1, ids1)"
    "card (fst ` set sm1) + length es' \<le> 255" "endpoint_ids sm1 es' = (sm2, ids2)"
    "distinct (map ei_name (filter isSpecialType es))" "distinct (map ei_name (filter isSpecialType es'))"
    "i < length es" "isSpecialType (es ! i)" "j < length es'" "isSpecialType (es' ! j)"
    "ei_name (es ! i) = ei_name (es' ! j)"
  shows "ids1 ! i = ids2 ! j"
proof -
  note first = endpoint_ids_first
  have s1: "slots_ok sm1" using endpoint_ids_spec [OF assms(1-3)] by simp
  have "first_slot sm1 (ei_name (es ! i)) (uint (ids1 ! i))"
    using first [OF assms(1-3,6,8,9)] by simp
  then have "first_slot sm2 (ei_name (es ! i)) (uint (ids1 ! i))"
    using first [OF s1 assms(4,5,7,10,11)] by blast
  moreover have "first_slot sm2 (ei_name (es ! i)) (uint (ids2 ! j))"
    using first [OF s1 assms(4,5,7,10,11)] assms(12) by simp
  ultimately have "uint (ids1 ! i) = uint (ids2 ! j)" by (rule first_slot_unique)
  then show ?thesis by (rule unsigned_word_eqI)
qed

lemma numbers_stable_witness:
  "snd (endpoint_ids [(1, ''Old''), (3, ''Lamp'')] two_lights) ! 2 =
   snd (endpoint_ids (fst (endpoint_ids [(1, ''Old''), (3, ''Lamp'')] two_lights)) (rev (tl two_lights))) ! 0"
proof -
  let ?s = "[(1, ''Old''), (3, ''Lamp'')] :: (int, string) qmap"
  have n: "next_free [1, 3] 1 = 2"
    by (simp add: next_free.simps)
  have r: "endpoint_ids ?s two_lights = ([(1, ''Old''), (2, ''Desk''), (3, ''Lamp'')], [1, 2, 3])"
    by (simp add: endpoint_ids_def two_lights_def isSpecialType_def entity_new_def slot_number_def qm_insert_def
        next_free.simps Let_def)
  obtain sm2 ids2 where r2: "endpoint_ids [(1, ''Old''), (2, ''Desk''), (3, ''Lamp'')] (rev (tl two_lights)) = (sm2, ids2)"
    by (cases "endpoint_ids [(1, ''Old''), (2, ''Desk''), (3, ''Lamp'')] (rev (tl two_lights))")
  have "[1, 2, 3] ! 2 = ids2 ! 0"
    by (rule numbers_stable [of ?s two_lights _ _ "rev (tl two_lights)" sm2 ids2 2 0, OF _ _ r _ r2])
      (simp_all add: slots_ok_def qm_sorted_def two_lights_def isSpecialType_def entity_new_def)
  then show ?thesis using r r2 by simp
qed

text \<open>An object id as its base and its count, and back.\<close>

definition counted :: "string \<Rightarrow> int \<Rightarrow> string" where
  "counted base c = (if 1 < c then base @ qs_number c else base)"

definition plain_base :: "string \<Rightarrow> bool" where
  "plain_base b = (b = [] \<or> \<not> is_digit (last b))"

lemma counted_inj:
  assumes "plain_base a" "plain_base b" "1 \<le> c" "1 \<le> d" "counted a c = counted b d"
  shows "a = b \<and> c = d"
proof -
  have strip: "rev (dropWhile is_digit (rev (counted x n))) = x" if "plain_base x" "1 \<le> n" for x n
  proof -
    have "dropWhile is_digit (rev (nat_digits (nat n)) @ rev x) = dropWhile is_digit (rev x)"
      using nat_digits_digits [of "nat n"] by (intro dropWhile_append2) (simp add: list_all_iff)
    moreover have "dropWhile is_digit (rev x) = rev x"
      using that(1) by (cases x rule: rev_cases) (simp_all add: plain_base_def)
    ultimately show ?thesis using that(2) by (simp add: counted_def qs_number_def)
  qed
  have ab: "a = b" using strip [OF assms(1,3)] strip [OF assms(2,4)] assms(5) by simp
  moreover have "c = d"
    using assms(3-5) nat_digits_inj [of "nat c" "nat d"] unfolding ab
    by (auto simp: counted_def qs_number_def split: if_splits)
  ultimately show ?thesis ..
qed

lemma object_ids_counted:
  "x \<in> set (object_ids E counts es) \<Longrightarrow>
   \<exists>e c. e \<in> set es \<and> x = counted (object_base E e) c \<and> qm_value counts (object_base E e) 0 < c"
proof (induction es arbitrary: counts)
  case (Cons e es)
  let ?b = "object_base E e"
  let ?c = "qm_value counts ?b 0 + 1"
  show ?case
  proof (cases "x = counted ?b ?c")
    case False
    then have "x \<in> set (object_ids E (qm_insert ?b ?c counts) es)"
      using Cons.prems by (simp add: Let_def counted_def)
    then obtain f c where "f \<in> set es" "x = counted (object_base E f) c"
        "qm_value (qm_insert ?b ?c counts) (object_base E f) 0 < c"
      using Cons.IH by blast
    then show ?thesis by (intro exI [of _ f] exI [of _ c]) (auto split: if_splits)
  next
    case True
    then show ?thesis by (intro exI [of _ e] exI [of _ ?c]) simp
  qed
qed simp

lemma object_ids_distinct:
  assumes "\<forall>e \<in> set es. plain_base (object_base E e)" "\<forall>b. 0 \<le> qm_value counts b 0"
  shows "distinct (object_ids E counts es)"
  using assms
proof (induction es arbitrary: counts)
  case (Cons e es)
  let ?b = "object_base E e"
  let ?c = "qm_value counts ?b 0 + 1"
  have nn: "\<forall>b. 0 \<le> qm_value (qm_insert ?b ?c counts) b 0" using Cons.prems(2) by simp
  have "counted ?b ?c \<notin> set (object_ids E (qm_insert ?b ?c counts) es)"
  proof
    assume "counted ?b ?c \<in> set (object_ids E (qm_insert ?b ?c counts) es)"
    then obtain f c where f: "f \<in> set es" "counted ?b ?c = counted (object_base E f) c"
        "qm_value (qm_insert ?b ?c counts) (object_base E f) 0 < c"
      using object_ids_counted by blast
    have "0 \<le> qm_value (qm_insert ?b ?c counts) (object_base E f) 0" "0 \<le> qm_value counts ?b 0"
      using nn Cons.prems(2) by blast+
    then have e: "?b = object_base E f \<and> ?c = c"
      using f Cons.prems(1) by (intro counted_inj) auto
    then have "qm_value (qm_insert ?b ?c counts) (object_base E f) 0 = ?c" by simp
    then show False using f(3) e by linarith
  qed
  then show ?case
    using Cons.IH [OF _ nn] Cons.prems(1) by (simp add: Let_def counted_def)
qed simp

text \<open>
  C28: Object ids are unique within a device as long as no entity's own id ends in a digit: then the
  count appended to a repeated name cannot be mistaken for another name.
\<close>

theorem object_ids_unique:
  assumes "\<forall>e \<in> set es. plain_base (object_base E e)"
  shows "distinct (object_ids E [] es)"
  by (rule object_ids_distinct [OF assms]) simp

definition relay :: "string \<Rightarrow> EntityInfo" where
  "relay name = entity_new\<lparr>ei_key := 1, ei_type := ''switch'', ei_name := name\<rparr>"

lemma object_ids_unique_witness:
  "distinct (object_ids ascii_env [] [relay ''Relay'', relay ''Fan'', relay ''Relay''])"
proof -
  have "camelCase ascii_env ''Relay'' = ''relay''" "camelCase ascii_env ''Fan'' = ''fan''"
    by code_simp+
  then show ?thesis
    by (intro object_ids_unique) (auto simp: relay_def object_base_def entity_new_def plain_base_def is_digit_def)
qed

text \<open>
  Without that proviso they are not: two switches called Relay and one called Relay 2 give the
  object ids relay, relay2 and relay2.
\<close>

theorem object_ids_collide:
  "object_ids ascii_env [] [relay ''Relay'', relay ''Relay'', relay ''Relay 2''] = [''relay'', ''relay2'', ''relay2'']"
  by code_simp

end
