(* ===== verification/StateUpdate.thy ===== *)
theory StateUpdate
  imports Discovery
begin

text \<open>
  src/esphome.cpp: \<^verbatim>\<open>processStateUpdate\<close>. A state message is read into a map of raw values
  (\<open>state_field\<close>, one step per field), completed with the defaults proto3 leaves out
  (\<open>state_defaults\<close>), matched to an endpoint by its key (\<open>findEndpointByKey\<close>, sub-devices included),
  turned into the endpoint's published values (\<open>finish_state\<close>) and stored. Which endpoint the lookup has to find is
  specified by \<open>speaks_for\<close> and \<open>has_endpoint\<close>.
\<close>

subsection \<open>Reading the message\<close>

definition on_off :: "bool \<Rightarrow> variant" where
  "on_off b = VStr (if b then ''on'' else ''off'')"

definition state_light :: "env \<Rightarrow> ProtoField \<Rightarrow> variant_map \<Rightarrow> variant_map" where
  "state_light E f st =
     (if fld f 2 0 then qm_insert ''status'' (on_off (f_boolean f)) st
      else if fld f 3 5 then
        qm_insert ''level'' (VInt (fp_to_int (cast_ub E) (fp_mul round32 (f_floatVal f) (float_of_int 255)))) st
      else if fld f 4 5 then qm_insert ''_r'' (VDouble (f_floatVal f)) st
      else if fld f 5 5 then qm_insert ''_g'' (VDouble (f_floatVal f)) st
      else if fld f 6 5 then qm_insert ''_b'' (VDouble (f_floatVal f)) st
      else if fld f 8 5 then qm_insert ''colorTemperature'' (VInt (fp_to_int (cast_ub E) (f_floatVal f))) st
      else st)"

definition state_climate :: "env \<Rightarrow> ProtoField \<Rightarrow> variant_map \<Rightarrow> variant_map" where
  "state_climate E f st =
     (if fld f 2 0 then qm_insert ''systemMode'' (VStr (climateModeName (m_varint f))) st
      else if fld f 3 5 then qm_insert ''temperature'' (VDouble (f_floatVal f)) st
      else if fld f 4 5 then qm_insert ''targetTemperature'' (VDouble (f_floatVal f)) st
      else if fld f 8 0 then qm_insert ''running'' (VBool (climateActionRunning (m_varint f))) st
      else if fld f 9 0 then qm_insert ''fanMode'' (VStr (climateFanModeName (m_varint f))) st
      else if fld f 11 2 \<and> f_string E f \<noteq> [] then qm_insert ''fanMode'' (VStr (f_string E f)) st
      else if fld f 12 0 then qm_insert ''operationMode'' (VStr (climatePresetName (m_varint f))) st
      else if fld f 13 2 \<and> f_string E f \<noteq> [] then qm_insert ''operationMode'' (VStr (f_string E f)) st
      else st)"

definition state_value :: "env \<Rightarrow> MsgType \<Rightarrow> ProtoField \<Rightarrow> variant_map \<Rightarrow> variant_map" where
  "state_value E t f st =
     (case t of
        StateSwitch \<Rightarrow> if fld f 2 0 then qm_insert ''_switchState'' (on_off (f_boolean f)) st else st
      | StateBinary \<Rightarrow> if fld f 2 0 then qm_insert ''_state'' (VBool (f_boolean f)) st else st
      | StateSensor \<Rightarrow> if fld f 2 5 then qm_insert ''_state'' (VDouble (f_floatVal f)) st else st
      | StateTextSensor \<Rightarrow> if fld f 2 2 then qm_insert ''_state'' (VStr (f_string E f)) st else st
      | StateLight \<Rightarrow> state_light E f st
      | StateCover \<Rightarrow>
          if fld f 2 0 then qm_insert ''_legacyState'' (VULong (m_varint f)) st
          else if fld f 3 5 then qm_insert ''_position'' (VDouble (f_floatVal f)) st else st
      | StateClimate \<Rightarrow> state_climate E f st
      | StateLock \<Rightarrow>
          if fld f 2 0 then qm_insert ''status'' (VStr (if m_varint f = 1 then ''off'' else ''on'')) st else st
      | StateSelect \<Rightarrow> if fld f 2 2 then qm_insert ''_state'' (VStr (f_string E f)) st else st
      | StateNumber \<Rightarrow> if fld f 2 5 then qm_insert ''_state'' (VDouble (f_floatVal f)) st else st
      | _ \<Rightarrow> st)"

definition state_field :: "env \<Rightarrow> MsgType \<Rightarrow> quint32 \<times> variant_map \<Rightarrow> ProtoField \<Rightarrow> quint32 \<times> variant_map" where
  "state_field E t acc f =
     (if fld f 1 5 then (f_fixed32 f, snd acc) else (fst acc, state_value E t f (snd acc)))"

definition read_state :: "env \<Rightarrow> MsgType \<Rightarrow> ProtoField list \<Rightarrow> quint32 \<times> variant_map" where
  "read_state E t fs = foldl (state_field E t) (0, []) fs"

definition insert_default :: "string \<Rightarrow> variant \<Rightarrow> variant_map \<Rightarrow> variant_map" where
  "insert_default k v m = (if qm_contains m k then m else qm_insert k v m)"

definition state_defaults :: "MsgType \<Rightarrow> variant_map \<Rightarrow> variant_map" where
  "state_defaults t st =
     (case t of
        StateSwitch \<Rightarrow> insert_default ''_switchState'' (VStr ''off'') st
      | StateBinary \<Rightarrow> insert_default ''_state'' (VBool False) st
      | StateLight \<Rightarrow> insert_default ''status'' (VStr ''off'') st
      | StateLock \<Rightarrow> insert_default ''status'' (VStr ''off'') st
      | StateClimate \<Rightarrow> insert_default ''running'' (VBool False) (insert_default ''systemMode'' (VStr ''off'') st)
      | _ \<Rightarrow> st)"

subsection \<open>Finding the endpoint\<close>

definition knownSubDevices :: "env \<Rightarrow> ('h, 'c) EspHomeDevice \<Rightarrow> DeviceList \<Rightarrow> dref list" where
  "knownSubDevices E conn L =
     List.map_filter (\<lambda>p. byHost L (sub_address E (dev L (m_device conn)) (snd p))) (m_subDeviceNames conn)"

definition endpoint_with_key :: "quint32 \<Rightarrow> DeviceObject \<Rightarrow> quint8 option" where
  "endpoint_with_key key d =
     map_option fst (List.find (\<lambda>p. v_toUInt (vm (ep_meta (snd p)) ''key'') = key) (d_endpoints d))"

fun find_in_devices :: "DeviceList \<Rightarrow> quint32 \<Rightarrow> dref list \<Rightarrow> (dref \<times> quint8) option" where
  "find_in_devices L key [] = None"
| "find_in_devices L key (r # rs) =
     (case endpoint_with_key key (dev L r) of
        Some i \<Rightarrow> Some (r, i)
      | None \<Rightarrow> find_in_devices L key rs)"

definition findEndpointByKey :: "env \<Rightarrow> ('h, 'c) EspHomeDevice \<Rightarrow> DeviceList \<Rightarrow> quint32 \<Rightarrow> (dref \<times> quint8) option" where
  "findEndpointByKey E conn L key = find_in_devices L key (m_device conn # knownSubDevices E conn L)"

subsection \<open>The published values\<close>

definition rename_state :: "string \<Rightarrow> string \<Rightarrow> variant_map \<Rightarrow> variant_map" where
  "rename_state old new st = (if qm_contains st old then qm_remove old (qm_insert new (vm st old) st) else st)"

definition round_sensor :: "env \<Rightarrow> EndpointObject \<Rightarrow> variant_map \<Rightarrow> variant_map" where
  "round_sensor E ep st =
     (if qm_contains st ''_state'' \<and> qm_contains (ep_meta ep) ''round'' then
        let factor = pow10 E (v_toInt (vm (ep_meta ep) ''round'')) in
        qm_insert ''_state''
          (VDouble (fp_div round64 (fp_round_int (fp_mul round64 (v_toDouble (vm st ''_state'')) factor)) factor)) st
      else st)"

definition combine_color :: "env \<Rightarrow> variant_map \<Rightarrow> variant_map" where
  "combine_color E st =
     (if qm_contains st ''_r'' then
        let channel = (\<lambda>k. VInt (fp_to_int (cast_ub E) (fp_mul round64 (v_toDouble (vm st k)) (double_of_int 255)))) in
        qm_insert ''color'' (VList [channel ''_r'', channel ''_g'', channel ''_b''])
          (qm_remove ''_b'' (qm_remove ''_g'' (qm_remove ''_r'' st)))
      else st)"

definition cover_state :: "env \<Rightarrow> EndpointObject \<Rightarrow> variant_map \<Rightarrow> variant_map" where
  "cover_state E ep st =
     (let st1 =
        (if v_toBool (vm (ep_meta ep) ''supportsPosition'') \<and> qm_contains st ''_position'' then
           let position = v_toDouble (vm st ''_position'') in
           qm_insert ''cover'' (VStr (if fp_pos position then ''open'' else ''closed''))
             (qm_insert ''position'' (VInt (fp_to_int (cast_ub E) (fp_round_int (fp_mul round64 position (double_of_int 100))))) st)
         else
           let closed = (v_toUInt (qm_value st ''_legacyState'' (VInt 0)) \<noteq> 0) in
           qm_insert ''position'' (VInt (if closed then 0 else 100))
             (qm_insert ''cover'' (VStr (if closed then ''closed'' else ''open'')) st))
      in qm_remove ''_legacyState'' (qm_remove ''_position'' st1))"

definition climate_state :: "EndpointObject \<Rightarrow> variant_map \<Rightarrow> variant_map" where
  "climate_state ep st =
     (let st1 = (if v_toBool (vm (ep_meta ep) ''climateHasPreset'')
                 then insert_default ''operationMode'' (VStr (climatePresetName 0)) st else st)
      in if v_toBool (vm (ep_meta ep) ''climateHasFanMode'')
         then insert_default ''fanMode'' (VStr (climateFanModeName 0)) st1 else st1)"

definition finish_state :: "service \<Rightarrow> MsgType \<Rightarrow> EndpointObject \<Rightarrow> variant_map \<Rightarrow> variant_map" where
  "finish_state S t ep st =
     (let E = s_env S;
          objectId = m_str S ep ''objectId'';
          st1 = (if t = StateSensor then round_sensor E ep st
                 else if t = StateLight then combine_color E st
                 else if t = StateCover then cover_state E ep st
                 else if t = StateClimate then climate_state ep st
                 else st)
      in rename_state ''_switchState'' (if ep_special ep then ''status'' else objectId)
           (rename_state ''_state'' objectId st1))"

definition set_states :: "variant_map \<Rightarrow> EndpointObject \<Rightarrow> EndpointObject" where
  "set_states st ep = foldl (\<lambda>ep p. setState (fst p) (snd p) ep) ep st"

definition update_endpoint :: "quint8 \<Rightarrow> (EndpointObject \<Rightarrow> EndpointObject) \<Rightarrow> DeviceObject \<Rightarrow> DeviceObject" where
  "update_endpoint i f d =
     (case map_of (d_endpoints d) i of
        None \<Rightarrow> d
      | Some ep \<Rightarrow> d\<lparr>d_endpoints := qm_insert i (f ep) (d_endpoints d)\<rparr>)"

text \<open>Everything after the message has been decoded.\<close>

definition apply_state ::
  "service \<Rightarrow> MsgType \<Rightarrow> ProtoField list \<Rightarrow> ('h, 'c) EspHomeDevice \<Rightarrow> world \<Rightarrow> world" where
  "apply_state S t fs conn W =
     (case read_state (s_env S) t fs of
        (key, st) \<Rightarrow>
          if key = 0 then W
          else case findEndpointByKey (s_env S) conn (w_devices W) key of
            None \<Rightarrow> W
          | Some (r, i) \<Rightarrow>
              (case map_of (d_endpoints (wdev W r)) i of
                 None \<Rightarrow> W
               | Some ep \<Rightarrow>
                   let st' = finish_state S t ep (state_defaults t st) in
                   stateChanged S r i
                     (on_dev r (\<lambda>d. (update_endpoint i (set_states st') d)\<lparr>d_lastSeen := w_now W\<rparr>) W)))"

definition processStateUpdate ::
  "service \<Rightarrow> MsgType \<Rightarrow> bytes \<Rightarrow> ('h, 'c) EspHomeDevice \<Rightarrow> world \<Rightarrow> world option" where
  "processStateUpdate S t payload conn W = map_option (\<lambda>fs. apply_state S t fs conn W) (decode payload)"

subsection \<open>The maps stay sorted\<close>

lemma qm_sorted_insert_default [simp]: "qm_sorted m \<Longrightarrow> qm_sorted (insert_default k v m)"
  by (simp add: insert_default_def)

lemma contains_insert_default [simp]: "qm_contains (insert_default k v m) a \<longleftrightarrow> a = k \<or> qm_contains m a"
  by (auto simp: insert_default_def)

lemma vm_insert_default [simp]: "vm (insert_default k v m) a = (if a = k \<and> \<not> qm_contains m k then v else vm m a)"
  by (simp add: insert_default_def)

lemma qm_sorted_state_value: "qm_sorted st \<Longrightarrow> qm_sorted (state_value E t f st)"
  by (cases t) (simp_all add: state_value_def state_light_def state_climate_def)

lemma read_state_snoc: "read_state E t (fs @ [f]) = state_field E t (read_state E t fs) f"
  by (simp add: read_state_def)

lemma qm_sorted_read_state: "qm_sorted (snd (read_state E t fs))"
proof (induction fs rule: rev_induct)
  case Nil
  then show ?case by (simp add: read_state_def)
next
  case (snoc f fs)
  then show ?case by (simp add: read_state_snoc state_field_def qm_sorted_state_value)
qed

lemma qm_sorted_state_defaults: "qm_sorted st \<Longrightarrow> qm_sorted (state_defaults t st)"
  by (cases t) (simp_all add: state_defaults_def)

lemma qm_sorted_rename [simp]: "qm_sorted st \<Longrightarrow> qm_sorted (rename_state a b st)"
  by (simp add: rename_state_def)

lemma qm_sorted_finish_state: "qm_sorted st \<Longrightarrow> qm_sorted (finish_state S t ep st)"
  by (simp add: finish_state_def Let_def round_sensor_def combine_color_def cover_state_def climate_state_def)

lemma map_of_rev_distinct: "distinct (map fst kvs) \<Longrightarrow> map_of (rev kvs) = map_of kvs"
  by (simp add: map_of_inject_set rev_map [symmetric] del: rev_map)

lemma set_states_only: "set_states st ep = ep\<lparr>ep_state := put_all qm_insert st (ep_state ep)\<rparr>"
  unfolding set_states_def by (induction st arbitrary: ep) (auto simp: setState_def)

lemma map_of_set_states:
  assumes "qm_sorted st"
  shows "map_of (ep_state (set_states st ep)) k = (if qm_contains st k then map_of st k else map_of (ep_state ep) k)"
  using map_of_rev_distinct [OF qm_sorted_distinct [OF assms]]
  by (auto simp: set_states_only qm.get_put_all qm_contains_def split: option.splits)

subsection \<open>What is looked up\<close>

text \<open>
  The specification of \<^verbatim>\<open>findEndpointByKey\<close>: a connection speaks for its device and for the listed devices
  under the address of a sub-device it has announced, and a key is that of an endpoint of one of these.
\<close>

definition speaks_for :: "env \<Rightarrow> ('h, 'c) EspHomeDevice \<Rightarrow> DeviceList \<Rightarrow> dref \<Rightarrow> bool" where
  "speaks_for E conn L r = (r = m_device conn \<or>
     r \<in> set (dlist L) \<and> (\<exists>k n. (k, n) \<in> set (m_subDeviceNames conn) \<and> d_host (dev L r) = sub_address E (dev L (m_device conn)) n))"

definition has_endpoint :: "DeviceList \<Rightarrow> quint32 \<Rightarrow> dref \<Rightarrow> quint8 \<Rightarrow> EndpointObject \<Rightarrow> bool" where
  "has_endpoint L key r i ep = (map_of (d_endpoints (dev L r)) i = Some ep \<and> v_toUInt (vm (ep_meta ep) ''key'') = key)"

lemma byHost_iff: "dl_inv L \<Longrightarrow> byHost L h = Some r \<longleftrightarrow> r \<in> set (dlist L) \<and> d_host (dev L r) = h"
  using byHost_Some byHost_unique by blast

lemma known_iff: "dl_inv L \<Longrightarrow> r \<in> set (m_device conn # knownSubDevices E conn L) \<longleftrightarrow> speaks_for E conn L r"
proof -
  assume "dl_inv L"
  have "set (List.map_filter f xs) = {y. \<exists>x \<in> set xs. f x = Some y}" for f :: "quint32 \<times> string \<Rightarrow> dref option" and xs
    by (induction xs) (auto simp: List.map_filter_def)
  then have "r \<in> set (knownSubDevices E conn L) \<longleftrightarrow> (\<exists>p \<in> set (m_subDeviceNames conn).
      r \<in> set (dlist L) \<and> d_host (dev L r) = sub_address E (dev L (m_device conn)) (snd p))"
    by (simp add: knownSubDevices_def byHost_iff [OF \<open>dl_inv L\<close>])
  also have "\<dots> \<longleftrightarrow> r \<in> set (dlist L) \<and> (\<exists>k n. (k, n) \<in> set (m_subDeviceNames conn) \<and>
      d_host (dev L r) = sub_address E (dev L (m_device conn)) n)"
    by (metis (no_types, lifting) prod.collapse snd_conv)
  finally show ?thesis by (simp add: speaks_for_def)
qed

lemma speaks_for_in_range:
  "dl_inv L \<Longrightarrow> m_device conn < length (objs L) \<Longrightarrow> speaks_for E conn L r \<Longrightarrow> r < length (objs L)"
  by (auto simp: speaks_for_def dl_inv_def)

lemma endpoint_with_key_None:
  assumes "qm_sorted (d_endpoints (dev L r))"
  shows "endpoint_with_key key (dev L r) = None \<longleftrightarrow> (\<nexists>i ep. has_endpoint L key r i ep)"
proof -
  have "map_of (d_endpoints (dev L r)) i = Some ep \<longleftrightarrow> (i, ep) \<in> set (d_endpoints (dev L r))" for i ep
    using map_of_eq_Some_iff [OF qm_sorted_distinct [OF assms]] by blast
  then show ?thesis by (auto simp: endpoint_with_key_def has_endpoint_def find_None_iff)
qed

lemma endpoint_with_key_Some:
  assumes "endpoint_with_key key (dev L r) = Some i" "qm_sorted (d_endpoints (dev L r))"
  shows "\<exists>ep. has_endpoint L key r i ep \<and> (\<forall>j ep'. has_endpoint L key r j ep' \<longrightarrow> i \<le> j)"
proof -
  let ?xs = "d_endpoints (dev L r)"
  have m: "map_of ?xs j = Some ep \<longleftrightarrow> (j, ep) \<in> set ?xs" for j ep
    using map_of_eq_Some_iff [OF qm_sorted_distinct [OF assms(2)]] by blast
  obtain ep where f: "List.find (\<lambda>p. v_toUInt (vm (ep_meta (snd p)) ''key'') = key) ?xs = Some (i, ep)"
    using assms(1) by (auto simp: endpoint_with_key_def)
  obtain n where "n < length ?xs" "v_toUInt (vm (ep_meta (snd (?xs ! n))) ''key'') = key" "(i, ep) = ?xs ! n"
      "\<forall>j < n. v_toUInt (vm (ep_meta (snd (?xs ! j))) ''key'') \<noteq> key"
    using find_Some_iff [THEN iffD1, OF f] by blast
  then have n: "n < length ?xs" "?xs ! n = (i, ep)" "v_toUInt (vm (ep_meta ep) ''key'') = key"
      "\<forall>j < n. v_toUInt (vm (ep_meta (snd (?xs ! j))) ''key'') \<noteq> key"
    by (metis snd_conv)+
  have "i \<le> j" if "has_endpoint L key r j ep'" for j ep'
  proof -
    have "(j, ep') \<in> set ?xs" "v_toUInt (vm (ep_meta ep') ''key'') = key" using that m by (simp_all add: has_endpoint_def)
    then obtain k where k: "k < length ?xs" "?xs ! k = (j, ep')" "\<not> k < n" using n(4) by (metis in_set_conv_nth snd_conv)
    show ?thesis
    proof (cases "k = n")
      case False
      then have "n < k" using k(3) by simp
      then have "fst (?xs ! n) < fst (?xs ! k)"
        using assms(2) k(1) by (auto simp: qm_sorted_def sorted_wrt_iff_nth_less)
      then show ?thesis using n(2) k(2) by simp
    qed (use n(2) k(2) in simp)
  qed
  moreover have "has_endpoint L key r i ep" using n m nth_mem [OF n(1)] by (simp add: has_endpoint_def)
  ultimately show ?thesis by blast
qed

lemma find_in_devices_None: "find_in_devices L key rs = None \<longleftrightarrow> (\<forall>r \<in> set rs. endpoint_with_key key (dev L r) = None)"
  by (induction rs) (auto split: option.splits)

lemma find_in_devices_Some:
  "find_in_devices L key rs = Some (r, i) \<Longrightarrow>
     r \<in> set rs \<and> endpoint_with_key key (dev L r) = Some i \<and> (endpoint_with_key key (dev L (hd rs)) \<noteq> None \<longrightarrow> r = hd rs)"
  by (induction rs) (auto split: option.splits)

lemma find_by_key:
  assumes "dl_inv L" "m_device conn < length (objs L)" "\<And>r. r < length (objs L) \<Longrightarrow> qm_sorted (d_endpoints (dev L r))"
  shows "case findEndpointByKey E conn L key of
      None \<Rightarrow> \<nexists>r i ep. speaks_for E conn L r \<and> has_endpoint L key r i ep
    | Some (r, i) \<Rightarrow> speaks_for E conn L r \<and> (\<exists>ep. has_endpoint L key r i ep) \<and>
        (\<forall>j ep'. has_endpoint L key r j ep' \<longrightarrow> i \<le> j) \<and>
        ((\<exists>j ep'. has_endpoint L key (m_device conn) j ep') \<longrightarrow> r = m_device conn)"
proof (cases "findEndpointByKey E conn L key")
  case None
  then have n: "\<forall>r \<in> set (m_device conn # knownSubDevices E conn L). endpoint_with_key key (dev L r) = None"
    by (simp only: findEndpointByKey_def find_in_devices_None)
  have "\<not> has_endpoint L key r i ep" if "speaks_for E conn L r" for r i ep
  proof -
    have "r < length (objs L)" using that by (rule speaks_for_in_range [OF assms(1,2)])
    then show ?thesis
      using n that endpoint_with_key_None [OF assms(3)] known_iff [OF assms(1), of r conn E] by blast
  qed
  with None show ?thesis by auto
next
  case (Some p)
  obtain r i where p: "p = (r, i)" by (cases p)
  have f: "r \<in> set (m_device conn # knownSubDevices E conn L)" "endpoint_with_key key (dev L r) = Some i"
      "endpoint_with_key key (dev L (m_device conn)) \<noteq> None \<longrightarrow> r = m_device conn"
    using find_in_devices_Some [of L key "m_device conn # knownSubDevices E conn L" r i] Some p
    unfolding findEndpointByKey_def by simp_all
  then have s: "speaks_for E conn L r" using known_iff [OF assms(1), of r conn E] by blast
  then have "r < length (objs L)" by (rule speaks_for_in_range [OF assms(1,2)])
  then have "\<exists>ep. has_endpoint L key r i ep \<and> (\<forall>j ep'. has_endpoint L key r j ep' \<longrightarrow> i \<le> j)"
    by (intro endpoint_with_key_Some [OF f(2) assms(3)])
  moreover have "(\<exists>j ep'. has_endpoint L key (m_device conn) j ep') \<longrightarrow> r = m_device conn"
    using f(3) endpoint_with_key_None [OF assms(3) [OF assms(2)], of key] by blast
  ultimately show ?thesis using s Some p by auto
qed

subsection \<open>Properties\<close>

text \<open>The part of an endpoint that does not describe its state.\<close>

definition ep_config :: "EndpointObject \<Rightarrow> EndpointObject" where
  "ep_config ep = ep\<lparr>ep_state := []\<rparr>"

definition dev_config :: "DeviceObject \<Rightarrow> DeviceObject" where
  "dev_config d = d\<lparr>d_lastSeen := 0, d_endpoints := []\<rparr>"

lemma apply_state_devices:
  "w_devices (apply_state S t fs conn W) =
     (case read_state (s_env S) t fs of (key, st) \<Rightarrow>
        if key = 0 then w_devices W
        else case findEndpointByKey (s_env S) conn (w_devices W) key of
          None \<Rightarrow> w_devices W
        | Some (r, i) \<Rightarrow>
            (case map_of (d_endpoints (wdev W r)) i of
               None \<Rightarrow> w_devices W
             | Some ep \<Rightarrow> upd_dev r (\<lambda>d. (update_endpoint i (set_states (finish_state S t ep (state_defaults t st))) d)
                            \<lparr>d_lastSeen := w_now W\<rparr>) (w_devices W)))"
  by (simp add: apply_state_def Let_def split: prod.splits option.splits)

lemma update_endpoint_config:
  assumes "\<And>ep. ep_config (f ep) = ep_config ep"
  shows "dev_config ((update_endpoint i f d)\<lparr>d_lastSeen := n\<rparr>) = dev_config d"
    and "map_option ep_config (map_of (d_endpoints (update_endpoint i f d)) j) = map_option ep_config (map_of (d_endpoints d) j)"
  using assms by (auto simp: update_endpoint_def dev_config_def split: option.splits)

lemma set_states_config: "ep_config (set_states st ep) = ep_config ep"
  by (simp add: set_states_only ep_config_def)

lemma upd_dev_config:
  assumes "\<And>d. dev_config (f d) = dev_config d \<and>
     map_option ep_config (map_of (d_endpoints (f d)) j) = map_option ep_config (map_of (d_endpoints d) j)"
  shows "dev_config (dev (upd_dev r f L) s) = dev_config (dev L s) \<and>
     map_option ep_config (map_of (d_endpoints (dev (upd_dev r f L) s)) j) = map_option ep_config (map_of (d_endpoints (dev L s)) j)"
  using assms by (cases "r < length (objs L)") (auto simp: dev_def upd_dev_def list_update_beyond nth_list_update)

text \<open>
  C16: A state message changes states only. Whatever it contains, every device keeps its
  configuration, its slots and its endpoints, and every endpoint its meta data and exposes; only
  endpoint states and the time a device was last seen can differ, and the device list is the same.
\<close>

theorem state_update_changes_states_only:
  assumes "processStateUpdate S t payload conn W = Some W'"
  shows "dlist (w_devices W') = dlist (w_devices W) \<and> dev_config (wdev W' s) = dev_config (wdev W s) \<and>
    map_option ep_config (map_of (d_endpoints (wdev W' s)) j) = map_option ep_config (map_of (d_endpoints (wdev W s)) j)"
proof -
  obtain fs where w: "W' = apply_state S t fs conn W"
    using assms by (auto simp: processStateUpdate_def)
  let ?f = "\<lambda>i st d. (update_endpoint i (set_states st) d)\<lparr>d_lastSeen := w_now W\<rparr>"
  have c: "dev_config (?f i st d) = dev_config d \<and>
      map_option ep_config (map_of (d_endpoints (?f i st d)) j) = map_option ep_config (map_of (d_endpoints d) j)" for i st d
    using update_endpoint_config [of "set_states st"] by (simp add: set_states_config)
  show ?thesis
    unfolding w wdev_def apply_state_devices
    using upd_dev_config [of "?f i st" j for i st, OF c] by (auto split: prod.splits option.splits)
qed

definition lamp_fields :: "ProtoField list" where
  "lamp_fields = [mkField 1 5 77 77 [], mkField 2 0 1 0 []]"

lemma lamp_payload: "decode (emit_all [AddFixed32 1 77, AddVarint 2 1]) = Some lamp_fields"
proof -
  have "length (emit_all [AddFixed32 1 77, AddVarint 2 1]) < 2 ^ 31"
    by (simp add: emit_all_def addFixed32_def addVarint_def writeTag_def writeVarint.simps)
  then show ?thesis
    by (subst decode_emits) (simp_all add: add_ok_def lamp_fields_def)
qed

lemma state_update_changes_states_only_witness:
  "\<exists>W'. processStateUpdate example_service StateLight (emit_all [AddFixed32 1 77, AddVarint 2 1])
      (EspHomeDevice_new 0 :: (nat, nat) EspHomeDevice) example_world = Some W' \<and>
    dev_config (wdev W' 0) = dev_config example_device"
proof -
  obtain W' where w: "processStateUpdate example_service StateLight (emit_all [AddFixed32 1 77, AddVarint 2 1])
      (EspHomeDevice_new 0 :: (nat, nat) EspHomeDevice) example_world = Some W'"
    by (simp add: processStateUpdate_def lamp_payload)
  have "wdev example_world 0 = example_device"
    by (simp add: example_world_def DeviceList_new_def alloc_dev_def wdev_def dev_def append_dev_def)
  then show ?thesis
    using w state_update_changes_states_only [OF w, of 0 0] by simp
qed

text \<open>
  C15: What a state message does. If its key is 0, or no endpoint of the connection's device or of a
  listed device under the address of an announced sub-device has it, nothing changes. Else one
  endpoint with that key changes, one of the device's own if there is one, with the least number: every
  finished value replaces the old one, the other values stay; the device that owns the endpoint
  is marked as seen now, and every other device is as before.
\<close>

theorem state_update_effect:
  assumes "decode payload = Some fs" "read_state (s_env S) t fs = (key, st)" "dl_inv (w_devices W)"
    "m_device conn < length (objs (w_devices W))"
    "\<And>r. r < length (objs (w_devices W)) \<Longrightarrow> qm_sorted (d_endpoints (wdev W r))"
  shows "\<exists>W'. processStateUpdate S t payload conn W = Some W' \<and>
    (if key = 0 \<or> (\<nexists>r i ep. speaks_for (s_env S) conn (w_devices W) r \<and> has_endpoint (w_devices W) key r i ep) then W' = W
     else \<exists>r i ep ep'. speaks_for (s_env S) conn (w_devices W) r \<and> has_endpoint (w_devices W) key r i ep \<and>
       (\<forall>j x. has_endpoint (w_devices W) key r j x \<longrightarrow> i \<le> j) \<and>
       ((\<exists>j x. has_endpoint (w_devices W) key (m_device conn) j x) \<longrightarrow> r = m_device conn) \<and>
       map_of (d_endpoints (wdev W' r)) i = Some ep' \<and> d_lastSeen (wdev W' r) = w_now W \<and>
       (let new = finish_state S t ep (state_defaults t st) in
          \<forall>k. map_of (ep_state ep') k = (if qm_contains new k then map_of new k else map_of (ep_state ep) k)) \<and>
       (\<forall>s. s \<noteq> r \<longrightarrow> wdev W' s = wdev W s))"
proof -
  let ?L = "w_devices W"
  have p: "processStateUpdate S t payload conn W = Some (apply_state S t fs conn W)"
    using assms(1) by (simp add: processStateUpdate_def)
  note f = find_by_key [OF assms(3,4) assms(5) [unfolded wdev_def], of "s_env S" key]
  show ?thesis
  proof (cases "key = 0 \<or> findEndpointByKey (s_env S) conn ?L key = None")
    case True
    then have "apply_state S t fs conn W = W" using assms(2) by (auto simp: apply_state_def)
    then show ?thesis using p f True by (auto split: option.splits)
  next
    case False
    then obtain r i ep where r: "findEndpointByKey (s_env S) conn ?L key = Some (r, i)" "speaks_for (s_env S) conn ?L r"
        "has_endpoint ?L key r i ep" "\<forall>j x. has_endpoint ?L key r j x \<longrightarrow> i \<le> j"
        "(\<exists>j x. has_endpoint ?L key (m_device conn) j x) \<longrightarrow> r = m_device conn"
      using f by (auto split: option.splits)
    let ?new = "finish_state S t ep (state_defaults t st)"
    have s: "qm_sorted ?new"
      using qm_sorted_read_state [of "s_env S" t fs] assms(2) by (simp add: qm_sorted_state_defaults qm_sorted_finish_state)
    have m: "map_of (d_endpoints (wdev W r)) i = Some ep" using r(3) by (simp add: has_endpoint_def wdev_def)
    have "r < length (objs ?L)" using speaks_for_in_range [OF assms(3,4) r(2)] .
    moreover have "w_devices (apply_state S t fs conn W) =
        upd_dev r (\<lambda>d. (update_endpoint i (set_states ?new) d)\<lparr>d_lastSeen := w_now W\<rparr>) ?L"
      using assms(2) r(1) m False by (simp add: apply_state_devices)
    ultimately have d: "wdev (apply_state S t fs conn W) s =
        (if s = r then (update_endpoint i (set_states ?new) (wdev W r))\<lparr>d_lastSeen := w_now W\<rparr> else wdev W s)" for s
      by (simp add: wdev_def)
    have e: "map_of (d_endpoints (wdev (apply_state S t fs conn W) r)) i = Some (set_states ?new ep)"
        "d_lastSeen (wdev (apply_state S t fs conn W) r) = w_now W"
      using m by (simp_all add: d update_endpoint_def)
    have c: "\<not> (key = 0 \<or> (\<nexists>r i ep. speaks_for (s_env S) conn ?L r \<and> has_endpoint ?L key r i ep))"
      using False r(2,3) by blast
    show ?thesis
      unfolding if_not_P [OF c]
      by (rule exI [of _ "apply_state S t fs conn W"], rule conjI [OF p],
          rule exI [of _ r], rule exI [of _ i], rule exI [of _ ep], rule exI [of _ "set_states ?new ep"])
        (use r(2-5) e d map_of_set_states [OF s] in \<open>simp add: Let_def\<close>)
  qed
qed

text \<open>The light of \<open>example_device\<close>, used in witnesses.\<close>

definition lamp :: EndpointObject where
  "lamp = snd (hd (d_endpoints example_device))"

lemma lamp_simps:
  "d_endpoints example_device = [(3, lamp)]" "vm (ep_meta lamp) ''key'' = VUInt 77" "vm (ep_meta lamp) ''type'' = VStr ''light''"
  "ep_state lamp = []"
  by (simp_all add: lamp_def example_device_def vmap_def new_endpoint_def)

lemma lamp_world: "wdev example_world 0 = example_device" "length (objs (w_devices example_world)) = 1"
  by (simp_all add: example_world_def DeviceList_new_def alloc_dev_def wdev_def dev_def append_dev_def)

lemma lamp_endpoint: "map_of (d_endpoints (wdev example_world 0)) 3 = Some lamp"
  by (simp add: lamp_world lamp_simps)

lemma lamp_read: "read_state ascii_env StateLight lamp_fields = (77, [(''status'', VStr ''on'')])"
  by (simp add: read_state_def lamp_fields_def state_field_def state_value_def state_light_def fld_def mkField_def
      f_fixed32_def f_boolean_def on_off_def qm_insert_def)

lemma lamp_found: "m_device conn = 0 \<Longrightarrow> findEndpointByKey ascii_env conn (w_devices example_world) 77 = Some (0, 3)"
  using lamp_world by (simp add: findEndpointByKey_def endpoint_with_key_def lamp_simps wdev_def)

lemma lamp_reported:
  "map_of (finish_state example_service StateLight lamp (state_defaults StateLight [(''status'', VStr ''on'')])) ''status'' = Some (VStr ''on'')"
  by (simp add: finish_state_def state_defaults_def insert_default_def qm_contains_def combine_color_def rename_state_def Let_def)

lemma example_env [simp]: "s_env example_service = ascii_env"
  by (simp add: example_service_def)

lemma state_update_effect_witness:
  "\<exists>W' ep'. processStateUpdate example_service StateLight (emit_all [AddFixed32 1 77, AddVarint 2 1])
      (EspHomeDevice_new 0 :: (nat, nat) EspHomeDevice) example_world = Some W' \<and>
    map_of (d_endpoints (wdev W' 0)) 3 = Some ep' \<and> map_of (ep_state ep') ''status'' = Some (VStr ''on'')"
proof -
  let ?c = "EspHomeDevice_new 0 :: (nat, nat) EspHomeDevice" and ?L = "w_devices example_world"
  have w: "dl_inv ?L" "dlist ?L = [0]"
    by (simp_all add: example_world_def DeviceList_new_def alloc_dev_def append_dev_def dl_inv_def)
  have c: "m_device ?c = 0" "m_subDeviceNames ?c = []" by (simp_all add: EspHomeDevice_new_def)
  have s: "speaks_for E ?c ?L r \<longleftrightarrow> r = 0" for E r using c by (simp add: speaks_for_def)
  have h: "has_endpoint ?L 77 0 i ep \<longleftrightarrow> i = 3 \<and> ep = lamp" for i ep
    using lamp_world(1) by (auto simp: has_endpoint_def lamp_simps wdev_def v_toUInt_def split: if_splits)
  have new: "map_of (finish_state example_service StateLight lamp (state_defaults StateLight [(''status'', VStr ''on'')])) ''status'' = Some (VStr ''on'')"
    by (rule lamp_reported)
  have r: "read_state (s_env example_service) StateLight lamp_fields = (77, [(''status'', VStr ''on'')])"
    using lamp_read by simp
  have q: "m_device ?c < length (objs ?L)" "\<And>r. r < length (objs ?L) \<Longrightarrow> qm_sorted (d_endpoints (wdev example_world r))"
    using c lamp_world by (simp_all add: lamp_simps qm_sorted_def)
  show ?thesis
    using state_update_effect [OF lamp_payload r w(1) q] new
    by (auto simp: s h c qm_contains_def Let_def)
qed

lemma vm_rename: "vm (rename_state old new st) k =
    (if qm_contains st old \<and> old \<noteq> k \<and> k = new then vm st old
     else if qm_contains st old \<and> k = old then VInvalid else vm st k)"
  by (simp add: rename_state_def)

lemma contains_rename: "qm_contains (rename_state old new st) k =
    (if qm_contains st old then k \<noteq> old \<and> (k = new \<or> qm_contains st k) else qm_contains st k)"
  by (auto simp: rename_state_def)

lemma rename_absent [simp]: "\<not> qm_contains st old \<Longrightarrow> rename_state old new st = st"
  by (simp add: rename_state_def)

lemma climate_state_contains:
  "k \<noteq> ''operationMode'' \<Longrightarrow> k \<noteq> ''fanMode'' \<Longrightarrow> qm_contains (climate_state ep st) k \<longleftrightarrow> qm_contains st k"
  by (simp add: climate_state_def Let_def)

lemma cover_state_absent:
  "k \<noteq> ''cover'' \<Longrightarrow> k \<noteq> ''position'' \<Longrightarrow> \<not> qm_contains st k \<Longrightarrow> \<not> qm_contains (cover_state E ep st) k"
  by (auto simp: cover_state_def Let_def split: if_splits)

text \<open>
  Proto3 leaves zero values out, and the service puts them back: a message that names only its
  entity's key reads as off for a switch, False for a binary sensor, off for a light, off and not
  running for a climate device, with preset \<^verbatim>\<open>none\<close> and fan mode \<^verbatim>\<open>on\<close> for a climate entity that has
  presets and fan modes, and open at 100 for a cover.
\<close>

theorem omitted_values:
  "let st = (\<lambda>t. finish_state S t ep (state_defaults t (snd (read_state (s_env S) t [mkField 1 5 v k []]))));
       objectId = m_str S ep ''objectId'' in
     vm (st StateSwitch) (if ep_special ep then ''status'' else objectId) =
       (if (if ep_special ep then ''status'' else objectId) = ''_switchState'' then VInvalid else VStr ''off'') \<and>
     vm (st StateBinary) objectId =
       (if objectId = ''_state'' \<or> objectId = ''_switchState'' then VInvalid else VBool False) \<and>
     vm (st StateLight) ''status'' = VStr ''off'' \<and>
     vm (st StateClimate) ''systemMode'' = VStr ''off'' \<and> vm (st StateClimate) ''running'' = VBool False \<and>
     vm (st StateClimate) ''operationMode'' =
       (if v_toBool (vm (ep_meta ep) ''climateHasPreset'') then VStr ''none'' else VInvalid) \<and>
     vm (st StateClimate) ''fanMode'' =
       (if v_toBool (vm (ep_meta ep) ''climateHasFanMode'') then VStr ''on'' else VInvalid) \<and>
     vm (st StateCover) ''cover'' = VStr ''open'' \<and> vm (st StateCover) ''position'' = VInt 100"
proof -
  have r: "read_state E t [mkField 1 5 v k []] = (ucast v, [])" for E t
    by (simp add: read_state_def state_field_def fld_def mkField_def f_fixed32_def)
  have n: "climatePresetName 0 = ''none''" "climateFanModeName 0 = ''on''"
    by (simp_all add: climatePresetName_def climateFanModeName_def)
  let ?st = "\<lambda>t. finish_state S t ep (state_defaults t [])"
  let ?o = "m_str S ep ''objectId''"
  have sw: "?st StateSwitch = rename_state ''_switchState'' (if ep_special ep then ''status'' else ?o) [(''_switchState'', VStr ''off'')]"
    by (simp add: finish_state_def state_defaults_def insert_default_def rename_state_def [of "''_state''"] qm_insert_def
        qm_contains_def)
  have bi: "?st StateBinary = rename_state ''_switchState'' (if ep_special ep then ''status'' else ?o)
      (rename_state ''_state'' ?o [(''_state'', VBool False)])"
    by (simp add: finish_state_def state_defaults_def insert_default_def qm_insert_def Let_def)
  have cl: "?st StateClimate = climate_state ep (qm_insert ''running'' (VBool False) (qm_insert ''systemMode'' (VStr ''off'') []))"
    by (simp add: finish_state_def state_defaults_def insert_default_def climate_state_contains Let_def)
  have co: "?st StateCover = cover_state (s_env S) ep []"
    by (simp add: finish_state_def state_defaults_def cover_state_absent Let_def)
  have li: "?st StateLight = qm_insert ''status'' (VStr ''off'') []"
    by (simp add: finish_state_def state_defaults_def insert_default_def rename_state_def combine_color_def)
  have l: "qm_contains [(a, v)] b \<longleftrightarrow> b = a" "vm [(a, v)] b = (if b = a then v else VInvalid)" for a b :: string and v
    by (auto simp: qm_contains_def vm_def qm_value_def)
  show ?thesis
    unfolding r Let_def snd_conv sw bi cl co li
    by (intro conjI)
      (simp_all add: vm_rename contains_rename l n climate_state_def cover_state_def Let_def v_toUInt_def)
qed

text \<open>
  A lock whose state is 0 (\<^verbatim>\<open>LOCK_STATE_NONE\<close>) is shown as unlocked when the field is sent, and as
  locked when proto3 leaves it out, although the two messages mean the same.
\<close>

theorem lock_zero_ambiguous:
  "let st = (\<lambda>fs. finish_state S StateLock ep (state_defaults StateLock (snd (read_state (s_env S) StateLock fs)))) in
     vm (st [mkField 1 5 v k [], mkField 2 0 0 0 []]) ''status'' = VStr ''on'' \<and>
     vm (st [mkField 1 5 v k []]) ''status'' = VStr ''off''"
  by (simp add: read_state_def state_field_def state_value_def state_defaults_def finish_state_def Let_def fld_def mkField_def
      vm_rename contains_rename insert_default_def)

text \<open>
  A light whose red channel is zero does not report its colour: proto3 leaves the red field out,
  so no \<^verbatim>\<open>color\<close> is published and the raw green and blue channels are stored as states of their own.
\<close>

theorem colour_without_red:
  "let st' = finish_state S StateLight ep (state_defaults StateLight
       (snd (read_state (s_env S) StateLight [mkField 1 5 v k [], mkField 2 0 1 0 [], mkField 5 5 0 g [], mkField 6 5 0 b []]))) in
     vm st' ''_g'' = VDouble (float_of_bits g) \<and> vm st' ''_b'' = VDouble (float_of_bits b) \<and>
     \<not> qm_contains st' ''color''"
  by (simp add: read_state_def state_field_def state_value_def state_light_def state_defaults_def finish_state_def Let_def
      fld_def mkField_def vm_rename contains_rename insert_default_def combine_color_def f_floatVal_def)

end
