(* ===== verification/Command.thy ===== *)
theory Command
  imports StateUpdate
begin

text \<open>
  src/esphome.cpp: \<^verbatim>\<open>sendMessage\<close> and \<^verbatim>\<open>EspHomeDevice::sendCommand\<close>. A command is built as a protobuf
  message by one function per entity type (\<open>cmd_switch\<close>, \<open>cmd_light\<close>, ...), then framed, encrypted and
  written to the socket. \<^verbatim>\<open>sendRaw\<close> is the socket's \<^verbatim>\<open>write\<close>.
\<close>

definition sock :: "sock_call \<Rightarrow> ('h, 'c) EspHomeDevice \<Rightarrow> ('h, 'c) EspHomeDevice" where
  "sock x conn = conn\<lparr>m_socket := m_socket conn @ [x]\<rparr>"

definition sendRaw :: "bytes \<Rightarrow> ('h, 'c) EspHomeDevice \<Rightarrow> ('h, 'c) EspHomeDevice" where
  "sendRaw d = sock (Write d)"

definition sendMessage ::
  "('h, 'c) noise_api \<Rightarrow> MsgType \<Rightarrow> bytes \<Rightarrow> ('h, 'c) EspHomeDevice \<Rightarrow> ('h, 'c) EspHomeDevice" where
  "sendMessage api t payload conn =
     (case m_noise conn of
        None \<Rightarrow> conn
      | Some n \<Rightarrow>
          if \<not> m_complete n then conn
          else case encrypt api (message_inner (msg_id t) payload) n of
            (n', encrypted) \<Rightarrow> sendRaw (frame_of encrypted) (conn\<lparr>m_noise := Some n'\<rparr>))"

subsection \<open>The messages\<close>

definition lower :: "env \<Rightarrow> variant \<Rightarrow> string" where
  "lower E value = string_toLower E (v_toString E value)"

definition reported :: "env \<Rightarrow> EndpointObject \<Rightarrow> string \<Rightarrow> string" where
  "reported E ep k = v_toString E (vm (ep_state ep) k)"

definition is_on :: "string \<Rightarrow> bool" where
  "is_on s = (s = ''on'' \<or> s = ''1'' \<or> s = ''true'')"

definition is_off :: "string \<Rightarrow> bool" where
  "is_off s = (s = ''off'' \<or> s = ''0'' \<or> s = ''false'')"

definition wanted_on :: "env \<Rightarrow> EndpointObject \<Rightarrow> variant \<Rightarrow> bool" where
  "wanted_on E ep value =
     (if lower E value = ''toggle'' then reported E ep ''status'' \<noteq> ''on'' else is_on (lower E value))"

definition wanted_locked :: "env \<Rightarrow> EndpointObject \<Rightarrow> variant \<Rightarrow> bool" where
  "wanted_locked E ep value =
     (if lower E value = ''toggle'' then reported E ep ''status'' \<noteq> ''off'' else is_off (lower E value))"

definition v_fraction :: "env \<Rightarrow> int \<Rightarrow> variant \<Rightarrow> fp" where
  "v_fraction E n value = fp_div round32 (v_toFloat E value) (float_of_int n)"

definition cmd_switch :: "env \<Rightarrow> EndpointObject \<Rightarrow> variant \<Rightarrow> bytes \<Rightarrow> bytes" where
  "cmd_switch E ep value = addBool 2 (wanted_on E ep value)"

definition cmd_lock :: "env \<Rightarrow> EndpointObject \<Rightarrow> variant \<Rightarrow> bytes \<Rightarrow> bytes" where
  "cmd_lock E ep value = addVarint 2 (if wanted_locked E ep value then 1 else 0)"

definition cmd_light :: "env \<Rightarrow> EndpointObject \<Rightarrow> string \<Rightarrow> variant \<Rightarrow> bytes \<Rightarrow> bytes" where
  "cmd_light E ep action value d =
     (if action = ''status'' then addBool 3 (wanted_on E ep value) (addBool 2 True d)
      else if action = ''level'' then
        addFloat 5 (v_fraction E 255 value) (addBool 4 True (addBool 3 True (addBool 2 True d)))
      else if action = ''color'' then
        (let list = v_toList E value in
         if 3 \<le> length list then
           addFloat 9 (v_fraction E 255 (list ! 2)) (addFloat 8 (v_fraction E 255 (list ! 1))
             (addFloat 7 (v_fraction E 255 (list ! 0)) (addBool 6 True (addBool 3 True (addBool 2 True d)))))
         else d)
      else if action = ''colorTemperature'' then
        addFloat 13 (v_toFloat E value) (addBool 12 True (addBool 3 True (addBool 2 True d)))
      else d)"

definition cmd_cover :: "env \<Rightarrow> string \<Rightarrow> variant \<Rightarrow> bytes \<Rightarrow> bytes" where
  "cmd_cover E action value d =
     (if action = ''cover'' then
        (let v = lower E value in
         if v = ''stop'' then addBool 8 True d
         else addFloat 5 (if v = ''open'' then fp_one else fp_zero) (addBool 4 True d))
      else if action = ''position'' then addFloat 5 (v_fraction E 100 value) (addBool 4 True d)
      else d)"

definition cmd_climate :: "env \<Rightarrow> string \<Rightarrow> variant \<Rightarrow> bytes \<Rightarrow> bytes" where
  "cmd_climate E action value d =
     (let s = v_toString E value in
      if action = ''systemMode'' then
        (let mode = climateModeValue s in
         if 0 \<le> mode then addVarint 3 (word_of_int mode) (addBool 2 True d) else d)
      else if action = ''targetTemperature'' then addFloat 5 (v_toFloat E value) (addBool 4 True d)
      else if action = ''fanMode'' then
        (let mode = climateFanModeValue s in
         if 0 \<le> mode then addVarint 13 (word_of_int mode) (addBool 12 True d)
         else addString (to_utf8 E) 17 s (addBool 16 True d))
      else if action = ''operationMode'' then
        (let preset = climatePresetValue s in
         if 0 \<le> preset then addVarint 19 (word_of_int preset) (addBool 18 True d)
         else addString (to_utf8 E) 21 s (addBool 20 True d))
      else d)"

text \<open>The message of a command, if the endpoint's type has one.\<close>

definition command_message ::
  "service \<Rightarrow> EndpointObject \<Rightarrow> string \<Rightarrow> variant \<Rightarrow> (MsgType \<times> bytes) option" where
  "command_message S ep action value =
     (let E = s_env S;
          key = v_toUInt (vm (ep_meta ep) ''key'');
          etype = m_str S ep ''type'';
          cmd = addFixed32 1 key []
      in if etype = ''switch'' then Some (SwitchCommand, cmd_switch E ep value cmd)
         else if etype = ''lock'' then Some (LockCommand, cmd_lock E ep value cmd)
         else if etype = ''light'' then Some (LightCommand, cmd_light E ep action value cmd)
         else if etype = ''cover'' then Some (CoverCommand, cmd_cover E action value cmd)
         else if etype = ''climate'' then Some (ClimateCommand, cmd_climate E action value cmd)
         else if etype = ''select'' then Some (SelectCommand, addString (to_utf8 E) 2 (v_toString E value) cmd)
         else if etype = ''number'' then Some (NumberCommand, addFloat 2 (v_toFloat E value) cmd)
         else if etype = ''button'' then Some (ButtonCommand, cmd)
         else None)"

definition sendCommand ::
  "service \<Rightarrow> ('h, 'c) noise_api \<Rightarrow> DeviceObject \<Rightarrow> quint8 \<Rightarrow> string \<Rightarrow> variant \<Rightarrow>
   ('h, 'c) EspHomeDevice \<Rightarrow> ('h, 'c) EspHomeDevice" where
  "sendCommand S api device endpointId action value conn =
     (if m_state conn \<noteq> Subscribe then conn
      else case map_of (d_endpoints device) endpointId of
        None \<Rightarrow> conn
      | Some ep \<Rightarrow>
          (case command_message S ep action value of
             None \<Rightarrow> conn
           | Some (t, payload) \<Rightarrow> sendMessage api t payload conn))"

subsection \<open>The fields of a command\<close>

text \<open>What each builder adds, as \<open>proto_add\<close>s.\<close>

lemma adds [simp]:
  "emit_all as @ [] = emit_all as"
  "addVarint n v (emit_all as) = emit_all (as @ [AddVarint n v])"
  "addFixed32 n k (emit_all as) = emit_all (as @ [AddFixed32 n k])"
  "addBool n b (emit_all as) = emit_all (as @ [AddVarint n (of_bool b)])"
  "addFloat n x (emit_all as) = emit_all (as @ [AddFixed32 n (bits_of_float x)])"
  "addString u n s (emit_all as) = emit_all (as @ [AddBytes n (u s)])"
  by (simp_all add: emit_all_def addBool_def addFloat_def addString_def)

definition start_command :: "quint32 \<Rightarrow> proto_add list" where
  "start_command key = [AddFixed32 1 key]"

lemma start_command: "addFixed32 1 key [] = emit_all (start_command key)"
  by (simp add: emit_all_def start_command_def)

lemma addString_emit: "addString u n s (emit_all as) = emit_all (as @ [AddBytes n (u s)])"
  by (simp add: emit_all_def addString_def)

text \<open>Every builder appends calls with field numbers other than the key's.\<close>

definition extends :: "(bytes \<Rightarrow> bytes) \<Rightarrow> bool" where
  "extends f = (\<forall>as. \<exists>bs. f (emit_all as) = emit_all (as @ bs) \<and> list_all (\<lambda>a. add_ok a \<and> add_number a \<noteq> 1) bs)"

lemma extends_id: "extends (\<lambda>d. d)"
  unfolding extends_def by (auto intro!: exI [of _ "[]"])

lemma extends_comp: "extends f \<Longrightarrow> extends g \<Longrightarrow> extends (\<lambda>d. f (g d))"
  unfolding extends_def
proof (intro allI)
  fix as
  assume f: "\<forall>as. \<exists>bs. f (emit_all as) = emit_all (as @ bs) \<and> list_all (\<lambda>a. add_ok a \<and> add_number a \<noteq> 1) bs"
    and g: "\<forall>as. \<exists>bs. g (emit_all as) = emit_all (as @ bs) \<and> list_all (\<lambda>a. add_ok a \<and> add_number a \<noteq> 1) bs"
  obtain bs where b: "g (emit_all as) = emit_all (as @ bs)" "list_all (\<lambda>a. add_ok a \<and> add_number a \<noteq> 1) bs"
    using g by blast
  obtain cs where "f (emit_all (as @ bs)) = emit_all ((as @ bs) @ cs)" "list_all (\<lambda>a. add_ok a \<and> add_number a \<noteq> 1) cs"
    using f by blast
  with b show "\<exists>bs. f (g (emit_all as)) = emit_all (as @ bs) \<and> list_all (\<lambda>a. add_ok a \<and> add_number a \<noteq> 1) bs"
    by (intro exI [of _ "bs @ cs"]) simp
qed

lemma extends_add:
  "2 \<le> n \<Longrightarrow> n < 2 ^ 28 \<Longrightarrow> extends (addVarint n v)"
  "2 \<le> n \<Longrightarrow> n < 2 ^ 28 \<Longrightarrow> extends (addBool n b)"
  "2 \<le> n \<Longrightarrow> n < 2 ^ 28 \<Longrightarrow> extends (addFloat n x)"
  "2 \<le> n \<Longrightarrow> n < 2 ^ 28 \<Longrightarrow> extends (addString u n s)"
  by (auto simp: extends_def add_ok_def)

lemma extends_Let: "(\<And>x. extends (f x)) \<Longrightarrow> extends (\<lambda>d. let x = t in f x d)"
  by simp

lemma extends_if: "extends f \<Longrightarrow> extends g \<Longrightarrow> extends (\<lambda>d. if b then f d else g d)"
  by (cases b) simp_all

lemmas extends_rules = extends_if extends_id extends_add
  extends_comp [where f = "addVarint n v" for n v] extends_comp [where f = "addBool n v" for n v]
  extends_comp [where f = "addFloat n v" for n v] extends_comp [where f = "addString u n v" for u n v]

lemma extends_commands:
  "extends (cmd_switch E ep value)" "extends (cmd_lock E ep value)" "extends (cmd_light E ep action value)"
  "extends (cmd_cover E action value)" "extends (cmd_climate E action value)"
proof -
  show "extends (cmd_switch E ep value)" "extends (cmd_lock E ep value)"
    unfolding cmd_switch_def cmd_lock_def by (intro extends_rules; simp)+
  show "extends (cmd_light E ep action value)"
    unfolding cmd_light_def [abs_def] Let_def by (intro extends_rules; simp)
  show "extends (cmd_cover E action value)"
    unfolding cmd_cover_def [abs_def] Let_def by (intro extends_rules; simp)
  show "extends (cmd_climate E action value)"
    unfolding cmd_climate_def [abs_def] Let_def by (intro extends_rules; simp)
qed

lemma extends_decode:
  assumes "extends f" "length (f (addFixed32 1 key [])) < 2 ^ 31"
  shows "\<exists>fs. decode (f (addFixed32 1 key [])) = Some (mkField 1 5 (ucast key) key [] # fs) \<and>
    list_all (\<lambda>g. m_field g \<noteq> 1) fs"
proof -
  obtain bs where b: "f (emit_all (start_command key)) = emit_all (start_command key @ bs)"
      "list_all (\<lambda>a. add_ok a \<and> add_number a \<noteq> 1) bs"
    using assms(1) unfolding extends_def by blast
  have ok: "\<forall>a \<in> set (start_command key @ bs). add_ok a"
    using b(2) by (auto simp: start_command_def add_ok_def list_all_iff)
  have "m_field (added_field a) = add_number a" for a
    by (cases a) (simp_all add: mkField_def)
  then have "list_all (\<lambda>g. m_field g \<noteq> 1) (map added_field bs)"
    using b(2) by (simp add: list_all_iff)
  moreover have "decode (f (addFixed32 1 key [])) = Some (map added_field (start_command key @ bs))"
    using assms(2) b(1) by (simp only: start_command) (rule decode_emits [OF ok])
  ultimately show ?thesis by (simp add: start_command_def)
qed

definition command_type :: "string \<Rightarrow> MsgType option" where
  "command_type etype =
     map_of [(''switch'', SwitchCommand), (''lock'', LockCommand), (''light'', LightCommand), (''cover'', CoverCommand),
       (''climate'', ClimateCommand), (''select'', SelectCommand), (''number'', NumberCommand), (''button'', ButtonCommand)] etype"

lemma command_decodes:
  assumes "command_message S ep action value = Some (t, payload)" "length payload < 2 ^ 31"
  shows "command_type (m_str S ep ''type'') = Some t \<and>
    (\<exists>fs. decode payload = Some (mkField 1 5 (ucast (v_toUInt (vm (ep_meta ep) ''key''))) (v_toUInt (vm (ep_meta ep) ''key'')) [] # fs) \<and>
       list_all (\<lambda>g. m_field g \<noteq> 1) fs)"
proof -
  let ?k = "v_toUInt (vm (ep_meta ep) ''key'')"
  obtain f where f: "payload = f (addFixed32 1 ?k [])" "extends f" "command_type (m_str S ep ''type'') = Some t"
    using assms(1) extends_commands extends_id extends_add(3,4) [of 2]
    by (auto simp: command_message_def command_type_def Let_def split: if_splits)
  show ?thesis
    using extends_decode [OF f(2), of ?k] assms(2) f(1,3) by blast
qed

subsection \<open>Properties\<close>

text \<open>
  C14: Every command reaches the entity it is for: whatever the endpoint, action and value, the message
  has the command type of the entity's type, decodes, starts with the entity's key as field 1 and has
  no other field 1 (messages below 2 GiB).
\<close>

theorem command_names_entity:
  assumes "command_message S ep action value = Some (t, payload)" "length payload < 2 ^ 31"
  shows "command_type (m_str S ep ''type'') = Some t \<and>
    (\<exists>fs. decode payload = Some (mkField 1 5 (ucast (v_toUInt (vm (ep_meta ep) ''key''))) (v_toUInt (vm (ep_meta ep) ''key'')) [] # fs) \<and>
       list_all (\<lambda>g. m_field g \<noteq> 1) fs)"
  using assms by (rule command_decodes)

definition lamp_on :: "proto_add list" where
  "lamp_on = [AddFixed32 1 77, AddVarint 2 1, AddVarint 3 1]"

lemma lamp_on_simps: "emit_all lamp_on = [13, 77, 0, 0, 0, 16, 1, 24, 1]"
  by (simp add: lamp_on_def emit_all_def addFixed32_def addVarint_def writeTag_def writeVarint.simps word_le_nat_alt)

lemma lamp_command: "command_message example_service lamp ''status'' (VStr ''on'') = Some (LightCommand, emit_all lamp_on)"
proof -
  have "lower ascii_env (VStr ''on'') = ''on''"
    by (simp add: lower_def ascii_env_def) code_simp
  then show ?thesis
    by (simp add: command_message_def m_str_def lamp_simps Let_def cmd_light_def wanted_on_def is_on_def
        emit_all_def addBool_def lamp_on_def)
qed

lemma command_names_entity_witness:
  "\<exists>payload fs. command_message example_service (snd (hd (d_endpoints example_device))) ''status'' (VStr ''on'') = Some (LightCommand, payload) \<and>
     decode payload = Some (mkField 1 5 77 77 [] # fs)"
  using command_names_entity [OF lamp_command] lamp_on_simps lamp_command by (auto simp: lamp_simps lamp_def [symmetric])

lemma decode_adds:
  "length (emit_all as) < 2 ^ 31 \<Longrightarrow> list_all add_ok as \<Longrightarrow> decode (emit_all as) = Some (map added_field as)"
  by (intro decode_emits) (simp_all add: list_all_iff)

lemma writeVarint_length: "length (writeVarint v d) \<le> length d + 10"
proof -
  have "unat w < 2 ^ (7 * Suc n) \<Longrightarrow> length (writeVarint w e) \<le> length e + Suc n" for w n and e :: bytes
  proof (induction n arbitrary: w e)
    case 0
    then show ?case by (subst writeVarint.simps) (simp add: ge_0x80_unat)
  next
    case (Suc n)
    have "unat (drop_bit 7 w) < 2 ^ (7 * Suc n)"
      using Suc.prems by (simp add: unat_drop_bit_7 less_mult_imp_div_less power_add)
    from Suc.IH [OF this, of "e @ [ucast ((w AND 0x7F) OR 0x80)]"] show ?case
      by (subst writeVarint.simps) simp
  qed
  from this [of v 9 d] show ?thesis
    using unsigned_less [of v, where 'a = nat] by (simp add: order.strict_trans)
qed

text \<open>A bound on a message: 24 bytes per call besides the payload bytes.\<close>

fun add_size :: "proto_add \<Rightarrow> nat" where
  "add_size (AddBytes n b) = 24 + length b"
| "add_size _ = 24"

lemma emit_length: "length (emit a d) \<le> length d + add_size a"
proof (cases a)
  case (AddVarint n v)
  then show ?thesis
    using writeVarint_length [of v "writeTag n 0 d"] writeVarint_length [of "scast (push_bit 3 (word_of_int n :: 32 word) OR word_of_int 0)" d]
    by (simp add: addVarint_def writeTag_def)
next
  case (AddFixed32 n v)
  then show ?thesis
    using writeVarint_length [of "scast (push_bit 3 (word_of_int n :: 32 word) OR word_of_int 5)" d]
    by (simp add: addFixed32_def writeTag_def)
next
  case (AddBytes n b)
  then show ?thesis
    using writeVarint_length [of "word_of_nat (length b)" "writeTag n 2 d"]
      writeVarint_length [of "scast (push_bit 3 (word_of_int n :: 32 word) OR word_of_int 2)" d]
    by (simp add: addBytes_def writeTag_def)
qed

lemma emit_all_length: "length (emit_all as) \<le> sum_list (map add_size as)"
proof (induction as rule: rev_induct)
  case (snoc a as)
  then show ?case using emit_length [of a "emit_all as"] by (simp add: emit_all_def)
qed (simp add: emit_all_def)

lemma decode_small:
  "sum_list (map add_size as) < 2 ^ 31 \<Longrightarrow> list_all add_ok as \<Longrightarrow> decode (emit_all as) = Some (map added_field as)"
  using emit_all_length [of as] by (intro decode_adds) linarith+

text \<open>
  C23: What the light and cover commands say, for every action and value. A light command switches the
  light on except \<^verbatim>\<open>status\<close>, which says what it wants; level, colour and colour temperature each set
  their own flag and value. A colour is taken from the first three elements of the list; with fewer,
  and for any other action, the command holds nothing but the key. A cover is stopped, or sent to a
  position: 1.0 for open, 0.0 for any other word, a hundredth of the value for \<^verbatim>\<open>position\<close>; for any other
  action the command holds nothing but the key.
\<close>

theorem light_and_cover_commands:
  "let key = mkField 1 5 (ucast k) k []; flag = (\<lambda>n. mkField n 0 1 0 []);
       num = (\<lambda>n x. mkField n 5 (ucast (bits_of_float x)) (bits_of_float x) []) in
     decode (cmd_light E ep action v (addFixed32 1 k [])) =
       Some (if action = ''status'' then [key, flag 2, mkField 3 0 (of_bool (wanted_on E ep v)) 0 []]
         else if action = ''level'' then [key, flag 2, flag 3, flag 4, num 5 (v_fraction E 255 v)]
         else if action = ''color'' then
           (case v_toList E v of
              r # g # b # _ \<Rightarrow>
                [key, flag 2, flag 3, flag 6, num 7 (v_fraction E 255 r), num 8 (v_fraction E 255 g), num 9 (v_fraction E 255 b)]
            | _ \<Rightarrow> [key])
         else if action = ''colorTemperature'' then [key, flag 2, flag 3, flag 12, num 13 (v_toFloat E v)]
         else [key]) \<and>
     decode (cmd_cover E action v (addFixed32 1 k [])) =
       Some (if action = ''cover'' then
           (if lower E v = ''stop'' then [key, flag 8]
            else [key, flag 4, num 5 (if lower E v = ''open'' then fp_one else fp_zero)])
         else if action = ''position'' then [key, flag 4, num 5 (v_fraction E 100 v)]
         else [key])"
  unfolding Let_def cmd_light_def cmd_cover_def start_command
  by (auto simp: decode_small start_command_def add_ok_def split: list.split)

definition report :: "service \<Rightarrow> MsgType \<Rightarrow> quint64 \<Rightarrow> EndpointObject \<Rightarrow> EndpointObject" where
  "report S t v ep =
     set_states (finish_state S t ep (state_defaults t
       (snd (read_state (s_env S) t ([mkField 1 5 9 9 []] @ (if v = 0 then [] else [mkField 2 0 v 0 []])))))) ep"

lemma reported_set_states:
  assumes "qm_sorted new" "map_of new k = Some v"
  shows "reported E (set_states new ep) k = v_toString E v"
  using map_of_set_states [OF assms(1), of ep k] assms(2) by (simp add: reported_def vm_def qm_value_def qm_contains_def)

text \<open>
  C25: Toggling asks for the opposite of what was reported. After a special switch or a light has
  reported a state (as ESPHome sends it: the field left out when it is off), a toggle command asks
  for on exactly when the report was off; after a lock has, it asks to lock exactly when the report
  was neither locked nor left out.
\<close>

theorem toggle_inverts:
  assumes "string_toLower (s_env S) ''toggle'' = ''toggle''" "ep_special ep"
  shows "wanted_on (s_env S) (report S StateSwitch v ep) (VStr ''toggle'') = (v = 0) \<and>
    wanted_on (s_env S) (report S StateLight v ep) (VStr ''toggle'') = (v = 0) \<and>
    wanted_locked (s_env S) (report S StateLock v ep) (VStr ''toggle'') = (v \<noteq> 0 \<and> v \<noteq> 1)"
proof -
  have r: "map_of (finish_state S t ep (state_defaults t
       (snd (read_state (s_env S) t ([mkField 1 5 9 9 []] @ (if v = 0 then [] else [mkField 2 0 v 0 []])))))) ''status'' = Some x \<Longrightarrow>
     reported (s_env S) (report S t v ep) ''status'' = v_toString (s_env S) x" for t x
    unfolding report_def by (rule reported_set_states) (intro qm_sorted_finish_state qm_sorted_state_defaults qm_sorted_read_state)
  note defs = read_state_def state_field_def state_value_def state_light_def state_defaults_def finish_state_def Let_def
    fld_def mkField_def on_off_def f_boolean_def insert_default_def combine_color_def contains_rename vm_rename
  have g: "map_of m k = Some (vm m k)" if "qm_contains m k" for m and k :: string
    using that by (auto simp: qm_contains_def vm_def qm_value_def)
  have sw: "reported (s_env S) (report S StateSwitch v ep) ''status'' = (if v = 0 then ''off'' else ''on'')"
  proof (cases "v = 0")
    case True
    show ?thesis by (subst r [OF g]) (simp_all add: True assms(2) defs)
  next
    case False
    show ?thesis by (subst r [OF g]) (simp_all add: False assms(2) defs)
  qed
  have li: "reported (s_env S) (report S StateLight v ep) ''status'' = (if v = 0 then ''off'' else ''on'')"
  proof (cases "v = 0")
    case True
    show ?thesis by (subst r [OF g]) (simp_all add: True defs)
  next
    case False
    show ?thesis by (subst r [OF g]) (simp_all add: False defs)
  qed
  have lo: "reported (s_env S) (report S StateLock v ep) ''status'' = (if v = 0 \<or> v = 1 then ''off'' else ''on'')"
  proof (cases "v = 0")
    case True
    show ?thesis by (subst r [OF g]) (simp_all add: True defs)
  next
    case False
    show ?thesis by (subst r [OF g]) (simp_all add: False defs)
  qed
  show ?thesis
    using assms(1) by (simp add: wanted_on_def wanted_locked_def lower_def sw li lo)
qed

lemma toggle_inverts_witness:
  "wanted_on ascii_env (report example_service StateLight 0 (snd (hd (d_endpoints example_device)))) (VStr ''toggle'')"
proof -
  have e: "s_env example_service = ascii_env" by (simp add: example_service_def)
  have "string_toLower ascii_env ''toggle'' = ''toggle''"
    by (simp add: ascii_env_def) code_simp
  moreover have "ep_special (snd (hd (d_endpoints example_device)))"
    by (simp add: ep_special_def example_device_def vmap_def)
  ultimately show ?thesis
    using toggle_inverts [of example_service "snd (hd (d_endpoints example_device))" 0] by (simp add: e)
qed

lemma read_switch_keys: "qm_contains (snd (read_state E StateSwitch fs)) k \<Longrightarrow> k = ''_switchState''"
proof (induction fs rule: rev_induct)
  case Nil
  then show ?case by (simp add: read_state_def)
next
  case (snoc f fs)
  then show ?case by (auto simp: read_state_snoc state_field_def state_value_def split: if_splits)
qed

text \<open>
  A config or diagnostic switch cannot be toggled off. Its reports go under its object id, the
  toggle command looks at \<^verbatim>\<open>status\<close>: after any report, on or off, it asks for on.
\<close>

theorem common_toggle_always_on:
  assumes "string_toLower (s_env S) ''toggle'' = ''toggle''" "\<not> ep_special ep" "m_str S ep ''objectId'' \<noteq> ''status''"
    "reported (s_env S) ep ''status'' \<noteq> ''on''"
  shows "wanted_on (s_env S)
     (set_states (finish_state S StateSwitch ep (state_defaults StateSwitch (snd (read_state (s_env S) StateSwitch fs)))) ep)
     (VStr ''toggle'')"
proof -
  let ?st = "state_defaults StateSwitch (snd (read_state (s_env S) StateSwitch fs))"
  let ?new = "finish_state S StateSwitch ep ?st"
  have "\<not> qm_contains ?st ''status''" "\<not> qm_contains ?st ''_state''"
    using read_switch_keys [of "s_env S" fs] by (auto simp: state_defaults_def)
  then have "\<not> qm_contains ?new ''status''"
    using assms(2,3) by (simp add: finish_state_def Let_def contains_rename)
  moreover have "qm_sorted ?new"
    by (intro qm_sorted_finish_state qm_sorted_state_defaults qm_sorted_read_state)
  ultimately have "reported (s_env S) (set_states ?new ep) ''status'' = reported (s_env S) ep ''status''"
    using map_of_set_states [of ?new ep "''status''"] by (simp add: reported_def vm_def qm_value_def)
  then show ?thesis
    using assms(1,4) by (simp add: wanted_on_def lower_def)
qed

lemma common_toggle_always_on_witness:
  "let ep = (new_endpoint 4)\<lparr>ep_meta := vmap [(''objectId'', VStr ''ledLock'')]\<rparr> in
     wanted_on ascii_env (set_states (finish_state example_service StateSwitch ep
       (state_defaults StateSwitch (snd (read_state ascii_env StateSwitch [mkField 1 5 9 9 [], mkField 2 0 1 0 []])))) ep)
     (VStr ''toggle'')"
proof -
  let ?ep = "(new_endpoint 4)\<lparr>ep_meta := vmap [(''objectId'', VStr ''ledLock'')]\<rparr>"
  have e: "s_env example_service = ascii_env" by (simp add: example_service_def)
  have "string_toLower ascii_env ''toggle'' = ''toggle''"
    by (simp add: ascii_env_def) code_simp
  then have "wanted_on (s_env example_service) (set_states (finish_state example_service StateSwitch ?ep
       (state_defaults StateSwitch (snd (read_state (s_env example_service) StateSwitch [mkField 1 5 9 9 [], mkField 2 0 1 0 []])))) ?ep)
     (VStr ''toggle'')"
    by (intro common_toggle_always_on) (simp_all add: e ep_special_def m_str_def reported_def new_endpoint_def vmap_def)
  then show ?thesis by (simp add: e Let_def)
qed

lemma light_level_read:
  "vm (finish_state S StateLight ep (state_defaults StateLight
     (snd (read_state E StateLight [mkField 1 5 7 7 [], mkField 3 5 v w []])))) ''level'' =
   VInt (fp_to_int (cast_ub E) (fp_mul round32 (float_of_bits w) (float_of_int 255)))"
proof -
  obtain x where x: "VInt (fp_to_int (cast_ub E) (fp_mul round32 (float_of_bits w) (float_of_int 255))) = x" by simp
  have "snd (read_state E StateLight [mkField 1 5 7 7 [], mkField 3 5 v w []]) = qm_insert ''level'' x []"
    by (simp add: read_state_def state_field_def state_value_def state_light_def fld_def mkField_def f_floatVal_def x)
  then show ?thesis
    unfolding x by (simp add: state_defaults_def finish_state_def Let_def combine_color_def)
qed

lemma light_colour_read:
  "vm (finish_state S StateLight ep (state_defaults StateLight
     (snd (read_state E StateLight [mkField 1 5 7 7 [], mkField 4 5 v r [], mkField 5 5 v' g [], mkField 6 5 v'' b []])))) ''color'' =
   VList [VInt (fp_to_int (cast_ub (s_env S)) (fp_mul round64 (float_of_bits r) (double_of_int 255))),
          VInt (fp_to_int (cast_ub (s_env S)) (fp_mul round64 (float_of_bits g) (double_of_int 255))),
          VInt (fp_to_int (cast_ub (s_env S)) (fp_mul round64 (float_of_bits b) (double_of_int 255)))]"
proof -
  obtain x y z where x: "float_of_bits r = x" "float_of_bits g = y" "float_of_bits b = z" by simp
  have "snd (read_state E StateLight [mkField 1 5 7 7 [], mkField 4 5 v r [], mkField 5 5 v' g [], mkField 6 5 v'' b []]) =
      qm_insert ''_b'' (VDouble z) (qm_insert ''_g'' (VDouble y) (qm_insert ''_r'' (VDouble x) []))"
    by (simp add: read_state_def state_field_def state_value_def state_light_def fld_def mkField_def f_floatVal_def x)
  moreover obtain u where u: "(\<lambda>x. VInt (fp_to_int (cast_ub (s_env S)) (fp_mul round64 x (double_of_int 255)))) = u" by simp
  then have "VInt (fp_to_int (cast_ub (s_env S)) (fp_mul round64 x (double_of_int 255))) = u x" for x by auto
  ultimately show ?thesis
    unfolding x by (simp add: state_defaults_def finish_state_def Let_def combine_color_def)
qed

text \<open>
  C24: Levels and colours survive the way to a light and back. When a light reports the very numbers
  it was sent, the published level is the level that was commanded, and the published colour the
  commanded colour, for every value from 0 to 255 (scaling, two roundings and the bits on the wire
  included).
\<close>

theorem level_and_colour_echo:
  assumes "n \<le> 255" "r \<le> 255" "g \<le> 255" "b \<le> 255"
  shows "let json = (\<lambda>k. VDouble (double_of_int (int k)));
       bits = (\<lambda>k. bits_of_float (v_fraction (s_env S) 255 (json k)));
       num = (\<lambda>i k. mkField i 5 (ucast (bits k)) (bits k) []);
       st = (\<lambda>fs. finish_state S StateLight ep (state_defaults StateLight (snd (read_state (s_env S) StateLight fs)))) in
     vm (st [mkField 1 5 7 7 [], num 3 n]) ''level'' = VInt (int n) \<and>
     vm (st [mkField 1 5 7 7 [], num 4 r, num 5 g, num 6 b]) ''color'' = VList [VInt (int r), VInt (int g), VInt (int b)]"
proof -
  have f: "v_fraction E 255 (VDouble (double_of_int (int k))) = fp_div round32 (float_of_int (int k)) (float_of_int 255)"
    if "k \<le> 255" for E k
    using float_of_double_int [of "int k"] that by (simp add: v_fraction_def)
  show ?thesis
    unfolding Let_def light_level_read light_colour_read f [OF assms(1)] f [OF assms(2)] f [OF assms(3)] f [OF assms(4)]
      echo255 [OF assms(1)] echo255 [OF assms(2)] echo255 [OF assms(3)] echo255 [OF assms(4)]
    by simp
qed

lemma level_and_colour_echo_witness:
  "let bits = bits_of_float (v_fraction ascii_env 255 (VDouble (double_of_int 77)));
       st = finish_state example_service StateLight (new_endpoint 1) (state_defaults StateLight
         (snd (read_state ascii_env StateLight [mkField 1 5 7 7 [], mkField 3 5 (ucast bits) bits []]))) in
   vm st ''level'' = VInt 77"
proof -
  have e: "s_env example_service = ascii_env" by (simp add: example_service_def)
  show ?thesis
    using level_and_colour_echo [of 77 0 0 0 example_service "new_endpoint 1"] by (simp add: e Let_def)
qed

lemma cover_position_read:
  "finish_state S StateCover ep (state_defaults StateCover
     (snd (read_state E StateCover [mkField 1 5 7 7 [], mkField 3 5 v w []]))) =
   cover_state (s_env S) ep (qm_insert ''_position'' (VDouble (float_of_bits w)) [])"
proof -
  have "snd (read_state E StateCover [mkField 1 5 7 7 [], mkField 3 5 v w []]) = qm_insert ''_position'' (VDouble (float_of_bits w)) []"
    by (simp add: read_state_def state_field_def state_value_def fld_def mkField_def f_floatVal_def)
  then show ?thesis by (simp add: state_defaults_def finish_state_def cover_state_absent Let_def)
qed

lemma cover_legacy_read:
  "finish_state S StateCover ep (state_defaults StateCover
     (snd (read_state E StateCover ([mkField 1 5 7 7 []] @ (if w = 0 then [] else [mkField 2 0 w 0 []]))))) =
   cover_state (s_env S) ep (if w = 0 then [] else qm_insert ''_legacyState'' (VULong w) [])"
proof -
  have "snd (read_state E StateCover ([mkField 1 5 7 7 []] @ (if w = 0 then [] else [mkField 2 0 w 0 []]))) =
      (if w = 0 then [] else qm_insert ''_legacyState'' (VULong w) [])"
    by (simp add: read_state_def state_field_def state_value_def fld_def mkField_def)
  then show ?thesis by (simp add: state_defaults_def finish_state_def cover_state_absent Let_def)
qed

text \<open>
  C26: What covers report. A cover with positions that reports the position it was sent is published at
  that percentage, for every percentage (division, rounding to single precision, the bits on the wire
  and the multiplication included), open unless it is 0. A report without a position is read from the
  legacy state: 0, which proto3 leaves out, is open at 100, and 1 is closed at 0; a cover without positions
  ignores a position and counts as open. No raw value is left.
\<close>

theorem cover_echo:
  assumes "n \<le> 100"
  shows "let bits = bits_of_float (v_fraction (s_env S) 100 (VDouble (double_of_int (int n))));
       st = (\<lambda>fs. finish_state S StateCover ep (state_defaults StateCover (snd (read_state (s_env S) StateCover fs))));
       position = st [mkField 1 5 7 7 [], mkField 3 5 (ucast bits) bits []];
       legacy = (\<lambda>w. st ([mkField 1 5 7 7 []] @ (if w = 0 then [] else [mkField 2 0 w 0 []]))) in
     position =
       (if v_toBool (vm (ep_meta ep) ''supportsPosition'')
        then [(''cover'', VStr (if n = 0 then ''closed'' else ''open'')), (''position'', VInt (int n))]
        else [(''cover'', VStr ''open''), (''position'', VInt 100)]) \<and>
     legacy 0 = [(''cover'', VStr ''open''), (''position'', VInt 100)] \<and>
     legacy 1 = [(''cover'', VStr ''closed''), (''position'', VInt 0)]"
proof -
  have f: "v_fraction E 100 (VDouble (double_of_int (int n))) = fp_div round32 (float_of_int (int n)) (float_of_int 100)" for E
    using float_of_double_int [of "int n"] assms by (simp add: v_fraction_def)
  define x where "x = float_of_bits (bits_of_float (fp_div round32 (float_of_int (int n)) (float_of_int 100)))"
  note e = echo100 [OF assms, folded x_def]
  have l: "vm [(a, v)] b = (if b = a then v else VInvalid)" "qm_contains [(a, v)] b \<longleftrightarrow> b = a" for a b :: string and v
    by (auto simp: qm_contains_def vm_def qm_value_def)
  show ?thesis
    unfolding Let_def f cover_position_read cover_legacy_read x_def [symmetric]
    by (simp add: cover_state_def e l qm_insert_def qm_remove_def qm_value_def v_toUInt_def Let_def)
qed

lemma cover_echo_witness:
  "let bits = bits_of_float (v_fraction ascii_env 100 (VDouble (double_of_int 37)));
       ep = (new_endpoint 1)\<lparr>ep_meta := vmap [(''supportsPosition'', VBool True)]\<rparr> in
   finish_state example_service StateCover ep (state_defaults StateCover
     (snd (read_state ascii_env StateCover [mkField 1 5 7 7 [], mkField 3 5 (ucast bits) bits []]))) =
   [(''cover'', VStr ''open''), (''position'', VInt 37)]"
proof -
  let ?ep = "(new_endpoint 1)\<lparr>ep_meta := vmap [(''supportsPosition'', VBool True)]\<rparr>"
  have "v_toBool (vm (ep_meta ?ep) ''supportsPosition'')" by (simp add: vmap_def)
  then show ?thesis
    using cover_echo [of 37 example_service ?ep] by (simp add: Let_def)
qed

end
