(* ===== verification/Connection.thy ===== *)
theory Connection
  imports Command "HOL-Library.Sublist"
begin

text \<open>
  src/esphome.cpp: the state machine of \<^verbatim>\<open>EspHomeDevice\<close>. Every slot and every public operation is a
  function on the connection and the world; \<^verbatim>\<open>emit\<close> runs the controller's slot. A socket close
  (\<^verbatim>\<open>disconnectFromHost\<close>, \<^verbatim>\<open>abort\<close>) may emit \<^verbatim>\<open>disconnected\<close> before it returns: \<open>sock_down\<close> asks the
  connection's \<open>sock_sync\<close>; \<^verbatim>\<open>abort\<close> on a connected socket always does, as documented. An operation that decodes a message is \<open>None\<close> when the decoder does not
  return, and where the code would follow a null \<^verbatim>\<open>m_noise\<close>.

  \<open>conn_step\<close> is the transition relation: any slot the event loop can run next, guarded by what is
  armed.
\<close>

type_synonym ('h, 'c) sys = "('h, 'c) EspHomeDevice \<times> world"

abbreviation main_dev :: "('h, 'c) sys \<Rightarrow> DeviceObject" where
  "main_dev cw \<equiv> wdev (snd cw) (m_device (fst cw))"

definition on_conn :: "(('h, 'c) EspHomeDevice \<Rightarrow> ('h, 'c) EspHomeDevice) \<Rightarrow> ('h, 'c) sys \<Rightarrow> ('h, 'c) sys" where
  "on_conn f cw = (f (fst cw), snd cw)"

definition on_world :: "(world \<Rightarrow> world) \<Rightarrow> ('h, 'c) sys \<Rightarrow> ('h, 'c) sys" where
  "on_world f cw = (fst cw, f (snd cw))"

definition connectToDevice :: "('h, 'c) sys \<Rightarrow> ('h, 'c) sys" where
  "connectToDevice cw =
     (if m_state (fst cw) \<noteq> Disconnected then cw
      else on_conn (\<lambda>conn. sock (ConnectToHost (d_host (main_dev cw)) (d_port (main_dev cw)))
             (conn\<lparr>m_state := Connecting, m_rxBuf := [], m_noiseHandshakeState := 0\<rparr>)) cw)"

definition link_up :: "conn_state \<Rightarrow> bool" where
  "link_up s = (s = Ready \<or> s = Subscribe \<or> s = ListEntities)"

definition go_offline :: "service \<Rightarrow> dref \<Rightarrow> world \<Rightarrow> world" where
  "go_offline S r W = availabilityChanged S r (on_dev r (\<lambda>d. d\<lparr>d_availability := Offline\<rparr>) W)"

definition arm_reconnect :: "('h, 'c) sys \<Rightarrow> ('h, 'c) sys" where
  "arm_reconnect cw =
     (if d_active (main_dev cw) then on_conn (\<lambda>conn. conn\<lparr>m_reconnectTimer := True\<rparr>) cw else cw)"

definition onDisconnected :: "service \<Rightarrow> ('h, 'c) sys \<Rightarrow> ('h, 'c) sys" where
  "onDisconnected S cw =
     (let conn = (fst cw)\<lparr>m_pingTimer := False, m_handshakeTimer := False, m_rxBuf := [], m_noiseHandshakeState := 0,
                            sock_open := False\<rparr>;
          wasReady = link_up (m_state conn);
          conn = conn\<lparr>m_state := Disconnected, m_noise := None\<rparr>;
          W = (if wasReady then
                 let W1 = go_offline S (m_device conn) (snd cw) in
                 foldl (\<lambda>W sub. go_offline S sub W) W1 (knownSubDevices (s_env S) conn (w_devices W1))
               else snd cw)
      in arm_reconnect (conn, W))"

definition sock_down :: "service \<Rightarrow> sock_call \<Rightarrow> ('h, 'c) sys \<Rightarrow> ('h, 'c) sys" where
  "sock_down S x cw =
     (let cw1 = on_conn (\<lambda>conn. sock x (conn\<lparr>sock_sync := tl (sock_sync conn)\<rparr>)) cw in
      if x = Abort \<and> sock_open (fst cw) \<or> sock_sync (fst cw) \<noteq> [] \<and> hd (sock_sync (fst cw))
      then onDisconnected S cw1 else cw1)"

definition disconnectFromDevice :: "service \<Rightarrow> ('h, 'c) sys \<Rightarrow> ('h, 'c) sys" where
  "disconnectFromDevice S cw =
     sock_down S DisconnectFromHost (on_conn (\<lambda>conn. conn\<lparr>m_pingTimer := False, m_reconnectTimer := False,
       m_handshakeTimer := False, m_state := Disconnected\<rparr>) cw)"

text \<open>The \<^verbatim>\<open>connected\<close> signal: from here the socket is open.\<close>

definition onConnected :: "('h, 'c) noise_api \<Rightarrow> ('h, 'c) sys \<Rightarrow> ('h, 'c) sys" where
  "onConnected api cw =
     on_conn (\<lambda>conn.
       let conn = conn\<lparr>sock_open := True, m_reconnectTimer := False, m_state := ClientHello, m_handshakeTimer := True\<rparr>;
           clientHello = [0x01, 0x00, 0x00] :: bytes;
           (n, handshakeData) = writeHandshake api (noise_new api (d_encryptionKey (main_dev cw)));
           noiseFrame = frame_of (0x00 # handshakeData)
       in (sendRaw (clientHello @ noiseFrame) (conn\<lparr>m_noise := Some n\<rparr>))
            \<lparr>m_state := ServerHello, m_noiseHandshakeState := 0\<rparr>) cw"

definition onError :: "('h, 'c) sys \<Rightarrow> ('h, 'c) sys" where
  "onError cw = arm_reconnect cw"

definition onPingTimer :: "('h, 'c) noise_api \<Rightarrow> ('h, 'c) sys \<Rightarrow> ('h, 'c) sys" where
  "onPingTimer api cw =
     (if m_state (fst cw) = Ready \<or> m_state (fst cw) = Subscribe then on_conn (sendMessage api PingRequest []) cw else cw)"

text \<open>The two single-shot timers have stopped when their slots run.\<close>

definition onReconnectTimer :: "service \<Rightarrow> ('h, 'c) sys \<Rightarrow> ('h, 'c) sys" where
  "onReconnectTimer S cw =
     (let cw1 = sock_down S Abort (on_conn (\<lambda>conn. conn\<lparr>m_reconnectTimer := False\<rparr>) cw);
          cw2 = on_conn (\<lambda>conn. conn\<lparr>m_reconnectTimer := False, m_state := Disconnected\<rparr>) cw1
      in if d_active (main_dev cw2) then connectToDevice cw2 else cw2)"

definition onHandshakeTimer :: "service \<Rightarrow> ('h, 'c) sys \<Rightarrow> ('h, 'c) sys" where
  "onHandshakeTimer S cw = sock_down S Abort (on_conn (\<lambda>conn. conn\<lparr>m_handshakeTimer := False\<rparr>) cw)"

subsection \<open>Messages\<close>

definition touch_seen :: "service \<Rightarrow> dref \<Rightarrow> world \<Rightarrow> world" where
  "touch_seen S r W = publishDeviceStatus S r (on_dev r (\<lambda>d. d\<lparr>d_lastSeen := w_now W\<rparr>) W)"

definition sub_info :: "env \<Rightarrow> quint32 \<times> string \<Rightarrow> ProtoField \<Rightarrow> quint32 \<times> string" where
  "sub_info E acc sf =
     (if fld sf 1 0 then (ucast (m_varint sf), snd acc)
      else if fld sf 2 2 then (fst acc, f_string E sf)
      else acc)"

definition info_field :: "service \<Rightarrow> ProtoField \<Rightarrow> ('h, 'c) sys \<Rightarrow> ('h, 'c) sys option" where
  "info_field S f cw =
     (let E = s_env S; set_dev = (\<lambda>g. Some (on_world (on_dev (m_device (fst cw)) g) cw)) in
      if fld f 4 2 then set_dev (\<lambda>d. d\<lparr>d_esphomeVersion := f_string E f\<rparr>)
      else if fld f 6 2 then set_dev (\<lambda>d. d\<lparr>d_modelName := f_string E f\<rparr>)
      else if fld f 12 2 then set_dev (\<lambda>d. d\<lparr>d_manufacturerName := f_string E f\<rparr>)
      else if fld f 20 2 then
        map_option (\<lambda>sfs. case foldl (sub_info E) (0, []) sfs of
            (subId, subName) \<Rightarrow>
              if 0 < subId
              then on_conn (\<lambda>conn. conn\<lparr>m_subDeviceNames := qm_insert subId subName (m_subDeviceNames conn)\<rparr>) cw
              else cw) (decode (m_raw f))
      else Some cw)"

fun info_fields :: "service \<Rightarrow> ProtoField list \<Rightarrow> ('h, 'c) sys \<Rightarrow> ('h, 'c) sys option" where
  "info_fields S [] cw = Some cw"
| "info_fields S (f # fs) cw = Option.bind (info_field S f cw) (info_fields S fs)"

definition processDeviceInfo ::
  "service \<Rightarrow> ('h, 'c) noise_api \<Rightarrow> bytes \<Rightarrow> ('h, 'c) sys \<Rightarrow> ('h, 'c) sys option" where
  "processDeviceInfo S api payload cw =
     Option.bind (decode payload) (\<lambda>fs.
       map_option (on_conn (\<lambda>conn. sendMessage api ListEntitiesRequest []
                              (conn\<lparr>m_pendingEntities := [], m_state := ListEntities\<rparr>)))
         (info_fields S fs (on_conn (\<lambda>conn. conn\<lparr>m_subDeviceNames := []\<rparr>) cw)))"

definition is_entity_message :: "MsgType \<Rightarrow> bool" where
  "is_entity_message t = (entity_type t \<noteq> [])"

definition is_state_message :: "MsgType \<Rightarrow> bool" where
  "is_state_message t =
     (t \<in> {StateBinary, StateCover, StateLight, StateSensor, StateSwitch, StateTextSensor, StateClimate,
           StateNumber, StateSelect, StateLock})"

definition processMessage ::
  "service \<Rightarrow> ('h, 'c) noise_api \<Rightarrow> quint16 \<Rightarrow> bytes \<Rightarrow> ('h, 'c) sys \<Rightarrow> ('h, 'c) sys option" where
  "processMessage S api mtype payload cw =
     (case msg_of mtype of
        None \<Rightarrow> Some cw
      | Some t \<Rightarrow>
          if t = HelloResponse then
            map_option (\<lambda>fs. on_conn (sendMessage api DeviceInfoRequest []) cw) (decode payload)
          else if t = DeviceInfoResponse then processDeviceInfo S api payload cw
          else if is_entity_message t then
            map_option (\<lambda>conn. (conn, snd cw)) (processEntityInfo (s_env S) t payload (fst cw))
          else if t = ListEntitiesDone then
            Some (on_conn (\<lambda>conn. sendMessage api SubscribeStates [] (conn\<lparr>m_state := Subscribe\<rparr>))
                    (on_world (applyDiscoveredEntities S (fst cw)) cw))
          else if is_state_message t then
            map_option (\<lambda>W. (fst cw, W)) (processStateUpdate S t payload (fst cw) (snd cw))
          else if t = PingResponse then
            (let W1 = touch_seen S (m_device (fst cw)) (snd cw) in
             Some (fst cw, foldl (\<lambda>W sub. touch_seen S sub W) W1
                             (knownSubDevices (s_env S) (fst cw) (w_devices W1))))
          else if t = DisconnectRequest then
            Some (sock_down S DisconnectFromHost (on_conn (sendMessage api DisconnectResponse []) cw))
          else Some cw)"

subsection \<open>Received data\<close>

text \<open>The outcome of one round: \<open>True\<close> goes on with the loop, \<open>False\<close> returns.\<close>

definition adopt_name :: "service \<Rightarrow> bytes \<Rightarrow> ('h, 'c) sys \<Rightarrow> ('h, 'c) sys" where
  "adopt_name S payload cw =
     (let nameEnd = 1 + index_of 0x00 (drop 1 payload);
          serverName = mqttSafe (s_env S) (from_utf8 (s_env S) (qba_mid payload 1 (nameEnd - 1)))
      in if 1 < nameEnd \<and> serverName \<noteq> [] \<and> d_name (main_dev cw) = address (s_env S) (main_dev cw)
         then on_world (on_dev (m_device (fst cw)) (\<lambda>d. d\<lparr>d_name := serverName\<rparr>)) cw
         else cw)"

definition hello_request :: "service \<Rightarrow> bytes" where
  "hello_request S = addVarint 3 14 (addVarint 2 1 (addString (to_utf8 (s_env S)) 1 ''homed-esphome'' []))"

text \<open>The three states after the handshake.\<close>

definition encrypted_frame ::
  "service \<Rightarrow> ('h, 'c) noise_api \<Rightarrow> bytes \<Rightarrow> ('h, 'c) sys \<Rightarrow> (bool \<times> ('h, 'c) sys) option" where
  "encrypted_frame S api payload cw =
     (case m_noise (fst cw) of
        None \<Rightarrow> Some (False, cw)
      | Some n \<Rightarrow>
          if \<not> m_complete n then Some (False, cw)
          else (case decrypt api payload n of
                  (n', plaintext) \<Rightarrow>
                    let cw1 = on_conn (\<lambda>conn. conn\<lparr>m_noise := Some n'\<rparr>) cw in
                    if plaintext = [] then Some (False, sock_down S DisconnectFromHost cw1)
                    else if length plaintext < 4 then Some (True, cw1)
                    else (case parse_inner plaintext of
                            (mtype, data) \<Rightarrow> map_option (Pair True) (processMessage S api mtype data cw1))))"

definition handle_frame ::
  "service \<Rightarrow> ('h, 'c) noise_api \<Rightarrow> bytes \<Rightarrow> ('h, 'c) sys \<Rightarrow> (bool \<times> ('h, 'c) sys) option" where
  "handle_frame S api payload cw =
     (case m_state (fst cw) of
        ServerHello \<Rightarrow>
          if payload = [] \<or> payload ! 0 \<noteq> 0x01 then Some (False, sock_down S DisconnectFromHost cw)
          else Some (True, on_conn (\<lambda>conn. conn\<lparr>m_state := NoiseHandshake\<rparr>) (adopt_name S payload cw))
      | NoiseHandshake \<Rightarrow>
          if payload = [] \<or> payload ! 0 \<noteq> 0x00 then Some (False, sock_down S DisconnectFromHost cw)
          else (case m_noise (fst cw) of
                  None \<Rightarrow> None
                | Some n \<Rightarrow>
                    (case readHandshake api (qba_mid payload 1 (-1)) n of
                       (n', ok) \<Rightarrow>
                         let cw1 = on_conn (\<lambda>conn. conn\<lparr>m_noise := Some n'\<rparr>) cw in
                         if \<not> ok then Some (False, sock_down S DisconnectFromHost cw1)
                         else Some (True, on_conn (sendMessage api HelloRequest (hello_request S))
                                (on_world (on_dev (m_device (fst cw))
                                     (\<lambda>d. d\<lparr>d_lastSeen := w_now (snd cw), d_availability := Online\<rparr>))
                                  (on_conn (\<lambda>conn. conn\<lparr>m_state := Ready, m_handshakeTimer := False,
                                                        m_pingTimer := True\<rparr>) cw1)))))
      | Disconnected \<Rightarrow> Some (True, cw)
      | Connecting \<Rightarrow> Some (True, cw)
      | ClientHello \<Rightarrow> Some (True, cw)
      | _ \<Rightarrow> encrypted_frame S api payload cw)"

definition ready_round ::
  "service \<Rightarrow> ('h, 'c) noise_api \<Rightarrow> ('h, 'c) sys \<Rightarrow> (bool \<times> ('h, 'c) sys) option" where
  "ready_round S api cw =
     (case next_frame (m_rxBuf (fst cw)) of
        Wait \<Rightarrow> Some (False, cw)
      | Reject b \<Rightarrow> Some (False, sock_down S DisconnectFromHost cw)
      | Item payload rest \<Rightarrow> handle_frame S api payload (on_conn (\<lambda>conn. conn\<lparr>m_rxBuf := rest\<rparr>) cw))"

partial_function (option) ready_loop ::
  "service \<Rightarrow> ('h, 'c) noise_api \<Rightarrow> ('h, 'c) sys \<Rightarrow> ('h, 'c) sys option" where
  "ready_loop S api cw =
     (if m_rxBuf (fst cw) = [] then Some cw
      else (case ready_round S api cw of
              None \<Rightarrow> None
            | Some (goon, cw') \<Rightarrow> if goon then ready_loop S api cw' else Some cw'))"

definition onReadyRead ::
  "service \<Rightarrow> ('h, 'c) noise_api \<Rightarrow> bytes \<Rightarrow> ('h, 'c) sys \<Rightarrow> ('h, 'c) sys option" where
  "onReadyRead S api data cw =
     ready_loop S api (on_conn (\<lambda>conn. conn\<lparr>m_rxBuf := m_rxBuf conn @ data\<rparr>) cw)"

subsection \<open>What the connection keeps\<close>

text \<open>
  Handlers change devices through setters only: hosts, ports, keys and the \<^verbatim>\<open>active\<close> flag of existing
  objects stay, the device list only grows at its end, and a well-formed list stays well formed.
\<close>

definition same_identity :: "DeviceObject \<Rightarrow> DeviceObject \<Rightarrow> bool" where
  "same_identity d e = (d_host e = d_host d \<and> d_port e = d_port d \<and> d_encryptionKey e = d_encryptionKey d \<and>
     d_active e = d_active d)"

definition keeps :: "DeviceList \<Rightarrow> DeviceList \<Rightarrow> bool" where
  "keeps L M = (length (objs L) \<le> length (objs M) \<and> (\<forall>r < length (objs L). same_identity (dev L r) (dev M r)) \<and>
     prefix (dlist L) (dlist M) \<and> (dl_inv L \<longrightarrow> dl_inv M))"

lemma same_identity_refl [simp]: "same_identity d d"
  by (simp add: same_identity_def)

lemma keeps_refl [simp]: "keeps L L"
  by (simp add: keeps_def)

lemma keeps_trans: "keeps L M \<Longrightarrow> keeps M N \<Longrightarrow> keeps L N"
  unfolding keeps_def same_identity_def by (auto dest: prefix_order.trans)

lemma keeps_upd_dev:
  assumes "\<And>d. same_identity d (f d)"
  shows "keeps L (upd_dev r f L)"
proof -
  have h: "d_host (f d) = d_host d" for d using assms [of d] by (simp add: same_identity_def)
  have "same_identity (dev L s) (dev (upd_dev r f L) s)" for s
    using assms by (cases "r < length (objs L)") (auto simp: dev_def upd_dev_def list_update_beyond nth_list_update)
  then show ?thesis
    using dl_inv_upd_dev [of f L r, OF h] by (simp add: keeps_def)
qed

lemma keeps_on_dev: "(\<And>d. same_identity d (f d)) \<Longrightarrow> keeps (w_devices W) (w_devices (on_dev r f W))"
  by (simp add: keeps_upd_dev)

lemma keeps_same:
  assumes "dl_same L M"
  shows "keeps L M"
proof -
  have "same_identity (dev L r) (dev M r)" for r
    using assms by (auto simp: dl_same_def same_identity_def)
  then show ?thesis
    using assms dl_inv_same [OF assms] by (simp add: keeps_def dl_same_def)
qed

lemma keeps_foldl:
  assumes "\<And>W x. keeps (w_devices W) (w_devices (f W x))"
  shows "keeps (w_devices W) (w_devices (foldl f W xs))"
  using assms by (induction xs arbitrary: W) (auto intro: keeps_trans)

lemma keeps_applyEntities: "same_identity d (applyEntitiesToDevice E es d)"
proof -
  have "saved d = saved e \<Longrightarrow> d_active d = d_active e" for d e :: DeviceObject
    unfolding saved_eq by simp
  from this [OF applyEntities_saved [of E es d]] show ?thesis
    using saved_fields [OF applyEntities_saved [of E es d]] by (simp add: same_identity_def)
qed

lemma keeps_subDevice:
  assumes "subDevice S conn k W = (r, W')"
  shows "keeps (w_devices W) (w_devices W')"
proof -
  let ?main = "wdev W (m_device conn)"
  let ?name = "qm_value (m_subDeviceNames conn) k (qs_number (uint k))"
  let ?addr = "sub_address (s_env S) ?main ?name"
  let ?fresh = "(new_device (c_defaults (s_config S)) ?name ?addr
      (d_port ?main) (d_encryptionKey ?main))\<lparr>d_parentAddress := address (s_env S) ?main, d_cloud := d_cloud ?main\<rparr>"
  let ?L = "append_dev (length (objs (w_devices W))) (snd (alloc_dev ?fresh (w_devices W)))"
  have u: "keeps L (upd_dev s (\<lambda>d. d\<lparr>d_name := a, d_manufacturerName := b, d_modelName := c, d_parentAddress := e,
      d_availability := Online\<rparr>) L)" for L s a b c e
    by (rule keeps_upd_dev) (simp add: same_identity_def)
  show ?thesis
  proof (cases "byHost (w_devices W) ?addr")
    case None
    have "d_host ?fresh = ?addr" by (simp add: new_device_def)
    then have "dl_inv (w_devices W) \<Longrightarrow> dl_inv ?L"
      using dl_inv_add [of "w_devices W" ?fresh] None by simp
    then have "keeps (w_devices W) ?L"
      by (auto simp: keeps_def)
    then show ?thesis
      using assms None u keeps_trans by (auto simp: subDevice_def Let_def prod.case_eq_if)
  qed (use assms u in \<open>auto simp: subDevice_def Let_def\<close>)
qed

lemma keeps_apply_groups:
  "apply_groups S conn gs touched W = (touched', W') \<Longrightarrow> keeps (w_devices W) (w_devices W')"
proof (induction gs arbitrary: touched W)
  case (Cons g gs)
  obtain k es where g: "g = (k, es)" by (cases g)
  show ?case
  proof (cases "k = 0")
    case False
    obtain r W1 where sub: "subDevice S conn k W = (r, W1)" by (cases "subDevice S conn k W")
    let ?W2 = "on_dev r (applyEntitiesToDevice (s_env S) es) W1"
    have "keeps (w_devices W1) (w_devices ?W2)" by (rule keeps_on_dev) (rule keeps_applyEntities)
    moreover have "keeps (w_devices ?W2) (w_devices W')"
      using Cons.IH [of "touched @ [r]" ?W2] Cons.prems False g sub by simp
    ultimately show ?thesis using keeps_subDevice [OF sub] keeps_trans by blast
  qed (use Cons g in simp)
qed simp

lemma keeps_applyDiscovered: "keeps (w_devices W) (w_devices (applyDiscoveredEntities S conn W))"
proof -
  let ?g = "group_entities (m_pendingEntities conn)"
  let ?W1 = "on_dev (m_device conn) (applyEntitiesToDevice (s_env S) (qm_value ?g 0 [])) W"
  obtain t W2 where g: "apply_groups S conn ?g [m_device conn] ?W1 = (t, W2)" by (cases "apply_groups S conn ?g [m_device conn] ?W1")
  have a: "keeps (w_devices W) (w_devices ?W1)" by (rule keeps_on_dev) (rule keeps_applyEntities)
  have b: "keeps (w_devices W2) (w_devices (foldl (\<lambda>W r. entitiesDiscovered S r W) W2 t))"
    by (rule keeps_foldl) (rule keeps_same [OF same_entitiesDiscovered])
  have "keeps (w_devices W) (w_devices (foldl (\<lambda>W r. entitiesDiscovered S r W) W2 t))"
    by (rule keeps_trans [OF a keeps_trans [OF keeps_apply_groups [OF g] b]])
  then show ?thesis
    by (simp only: applyDiscoveredEntities_def Let_def g prod.case)
qed
subsection \<open>What every handler respects\<close>

definition in_handshake :: "conn_state \<Rightarrow> bool" where
  "in_handshake s = (s = ServerHello \<or> s = NoiseHandshake)"

text \<open>
  The invariant of a connection: which timers run, what the noise object is and whether the socket is
  open are functions of the state. \<open>ClientHello\<close> is never seen from outside.
\<close>

definition conn_ok :: "('h, 'c) EspHomeDevice \<Rightarrow> bool" where
  "conn_ok conn =
     (m_state conn \<noteq> ClientHello \<and>
      m_pingTimer conn = link_up (m_state conn) \<and> m_handshakeTimer conn = in_handshake (m_state conn) \<and>
      (link_up (m_state conn) \<or> in_handshake (m_state conn) \<longrightarrow> sock_open conn \<and> m_noise conn \<noteq> None) \<and>
      (\<forall>n. m_noise conn = Some n \<longrightarrow> noise_inv n \<and> (link_up (m_state conn) \<longrightarrow> m_complete n) \<and>
           (in_handshake (m_state conn) \<longrightarrow> \<not> m_complete n)))"

text \<open>
  A disconnected connection waits for its reconnect timer, on a closed socket, and a connecting one
  for the socket; \<open>live\<close> says so for an active device.
\<close>

definition parked :: "('h, 'c) EspHomeDevice \<Rightarrow> bool" where
  "parked conn = ((m_state conn = Disconnected \<longrightarrow> m_reconnectTimer conn) \<and>
     (m_state conn = Disconnected \<or> m_state conn = Connecting \<longrightarrow> \<not> sock_open conn))"

definition live :: "('h, 'c) sys \<Rightarrow> bool" where
  "live cw = (m_device (fst cw) < length (objs (w_devices (snd cw))) \<and> d_active (main_dev cw) \<and> parked (fst cw))"

text \<open>
  What a connection may say. A Noise object is used by its own operations only, so it is a
  \<open>noise_of\<close> the key it was built with; \<open>agreed\<close> is a send cipher as a successful handshake leaves it.
  In \<open>speaks\<close> every write of a list of socket calls is the greeting with that key's handshake message,
  or one framed API message sealed by a cipher: the first after a greeting by an agreed cipher, each
  further one by the cipher as the one before left it.
\<close>

definition noise_of :: "('h, 'c) noise_api \<Rightarrow> bytes \<Rightarrow> ('h, 'c) NoiseNNpsk0 \<Rightarrow> bool" where
  "noise_of api key n = (\<exists>cs. n = fold (noise_step api) cs (noise_new api key))"

definition agreed :: "('h, 'c) noise_api \<Rightarrow> bytes \<Rightarrow> 'c \<Rightarrow> bool" where
  "agreed api key c = (\<exists>m d n. noise_of api key m \<and> readHandshake api d m = (n, True) \<and> m_sendCipher n = Some c)"

definition greeting :: "('h, 'c) noise_api \<Rightarrow> bytes \<Rightarrow> bytes" where
  "greeting api key = [0x01, 0x00, 0x00] @ frame_of (0x00 # snd (writeHandshake api (noise_new api key)))"

definition seal :: "('h, 'c) noise_api \<Rightarrow> bytes \<Rightarrow> 'c \<Rightarrow> 'c \<times> bytes" where
  "seal api p c =
     (case na_encrypt api p (length p + na_mac_length api c) c of
        (c', None) \<Rightarrow> (c', [])
      | (c', Some x) \<Rightarrow> (c', x))"

datatype 'c voice = Silent | Greeted | Speaking 'c

inductive speaks :: "('h, 'c) noise_api \<Rightarrow> bytes \<Rightarrow> sock_call list \<Rightarrow> 'c voice \<Rightarrow> 'c voice \<Rightarrow> bool"
  for api key where
  hush: "speaks api key [] s s"
| call: "(\<And>d. x \<noteq> Write d) \<Longrightarrow> speaks api key xs s t \<Longrightarrow> speaks api key (x # xs) s t"
| hello: "speaks api key xs Greeted t \<Longrightarrow> speaks api key (Write (greeting api key) # xs) s t"
| first: "agreed api key c \<Longrightarrow> seal api (message_inner (msg_id m) p) c = (c', x) \<Longrightarrow>
    speaks api key xs (Speaking c') t \<Longrightarrow> speaks api key (Write (frame_of x) # xs) Greeted t"
| further: "seal api (message_inner (msg_id m) p) c = (c', x) \<Longrightarrow>
    speaks api key xs (Speaking c') t \<Longrightarrow> speaks api key (Write (frame_of x) # xs) (Speaking c) t"

text \<open>The voice of a connection with a Noise object of the given key; \<open>talks\<close>: what is said keeps to it.\<close>

definition fits :: "('h, 'c) noise_api \<Rightarrow> bytes \<Rightarrow> ('h, 'c) NoiseNNpsk0 option \<Rightarrow> 'c voice \<Rightarrow> bool" where
  "fits api key x s =
     (case x of
        None \<Rightarrow> True
      | Some n \<Rightarrow> noise_of api key n \<and>
          (if m_complete n then (s = Greeted \<and> agreed api key (the (m_sendCipher n)) \<or> s = Speaking (the (m_sendCipher n)))
           else s = Greeted))"

definition talks :: "('h, 'c) noise_api \<Rightarrow> ('h, 'c) EspHomeDevice \<Rightarrow> ('h, 'c) EspHomeDevice \<Rightarrow> bool" where
  "talks api c d = (\<exists>xs. m_socket d = m_socket c @ xs \<and>
     (\<forall>key s. fits api key (m_noise c) s \<longrightarrow> (\<exists>t. speaks api key xs s t \<and> fits api key (m_noise d) t)))"

definition steady :: "('h, 'c) noise_api \<Rightarrow> ('h, 'c) sys \<Rightarrow> ('h, 'c) sys \<Rightarrow> bool" where
  "steady api cw cw' = (m_device (fst cw') = m_device (fst cw) \<and> keeps (w_devices (snd cw)) (w_devices (snd cw')) \<and>
     talks api (fst cw) (fst cw') \<and> (conn_ok (fst cw) \<longrightarrow> conn_ok (fst cw')))"

text \<open>\<open>fine\<close> adds that a live connection stays live; a requested disconnect is only \<open>steady\<close>.\<close>

definition fine :: "('h, 'c) noise_api \<Rightarrow> ('h, 'c) sys \<Rightarrow> ('h, 'c) sys \<Rightarrow> bool" where
  "fine api cw cw' = (steady api cw cw' \<and> (live cw \<longrightarrow> live cw'))"

lemmas state_defs = link_up_def in_handshake_def
lemmas conn_defs = conn_ok_def state_defs

lemma speaks_append: "speaks api key xs s t \<Longrightarrow> speaks api key ys t u \<Longrightarrow> speaks api key (xs @ ys) s u"
  by (induction rule: speaks.induct) (auto intro: speaks.intros)

lemma noise_of_new: "noise_of api key (noise_new api key)"
  unfolding noise_of_def by (rule exI [of _ "[]"]) simp

lemma noise_of_step: "noise_of api key n \<Longrightarrow> noise_of api key (noise_step api c n)"
  unfolding noise_of_def by (metis fold_append fold_simps comp_apply)

lemma noise_of_inv: "noise_of api key n \<Longrightarrow> noise_inv n"
  by (auto simp: noise_of_def noise_inv_calls)

lemma fits_None [simp]: "fits api key None s"
  by (simp add: fits_def)

lemma talks_refl [simp]: "talks api c d" if "m_socket d = m_socket c" "m_noise d = m_noise c"
  unfolding talks_def by (rule exI [of _ "[]"]) (use that speaks.hush in auto)

lemma talks_trans:
  assumes "talks api a b" "talks api b c"
  shows "talks api a c"
proof -
  from assms obtain xs ys where x: "m_socket b = m_socket a @ xs"
      "\<And>key s. fits api key (m_noise a) s \<Longrightarrow> \<exists>t. speaks api key xs s t \<and> fits api key (m_noise b) t"
    and y: "m_socket c = m_socket b @ ys"
      "\<And>key s. fits api key (m_noise b) s \<Longrightarrow> \<exists>t. speaks api key ys s t \<and> fits api key (m_noise c) t"
    unfolding talks_def by blast
  show ?thesis
    unfolding talks_def
    by (rule exI [of _ "xs @ ys"]) (use x y speaks_append in \<open>fastforce\<close>)
qed

lemma talks_call:
  assumes "m_socket d = m_socket c @ [x]" "\<And>b. x \<noteq> Write b" "m_noise d = m_noise c"
  shows "talks api c d"
  unfolding talks_def
proof (intro exI [of _ "[x]"] conjI allI impI)
  show "\<exists>t. speaks api key [x] s t \<and> fits api key (m_noise d) t" if "fits api key (m_noise c) s" for key s
    by (rule exI [of _ s]) (use that assms(2,3) speaks.call [OF _ speaks.hush, of x] in simp)
qed (simp add: assms(1))

lemma talks_hangup: "m_socket d = m_socket c \<Longrightarrow> m_noise d = None \<Longrightarrow> talks api c d"
  unfolding talks_def by (rule exI [of _ "[]"]) (use speaks.hush in auto)

lemma fits_decrypt: "fits api key (Some n) s \<Longrightarrow> fits api key (Some (fst (decrypt api d n))) s"
  using noise_of_step [of api key n "CallDecrypt d"]
  by (auto simp: fits_def decrypt_def split: option.splits prod.splits if_splits)

lemma fits_read:
  assumes "fits api key (Some n) s"
  shows "fits api key (Some (fst (readHandshake api d n))) s"
proof -
  have i: "noise_of api key (fst (readHandshake api d n))" "noise_of api key n" "noise_inv n"
    using assms noise_of_step [of api key n "CallReadHandshake d"] noise_of_inv by (auto simp: fits_def)
  show ?thesis
  proof (cases "snd (readHandshake api d n)")
    case True
    then obtain n' where n': "readHandshake api d n = (n', True)" by (cases "readHandshake api d n") simp
    have c: "m_complete n'" "\<not> m_complete n" using readHandshake_complete [OF i(3), of api d] n' by simp_all
    then have "m_sendCipher n' = Some (the (m_sendCipher n'))" using noise_of_inv [OF i(1)] n' by (auto simp: noise_inv_def)
    then have "agreed api key (the (m_sendCipher n'))" using i(2) n' unfolding agreed_def by blast
    then show ?thesis using assms i c n' by (simp add: fits_def)
  next
    case False
    then have "m_complete (fst (readHandshake api d n)) = m_complete n \<and> m_sendCipher (fst (readHandshake api d n)) = m_sendCipher n"
      by (auto simp: readHandshake_def split: option.splits prod.splits if_splits)
    then show ?thesis using assms i by (simp add: fits_def)
  qed
qed

lemma talks_decrypt: "m_socket d = m_socket c \<Longrightarrow> m_noise c = Some n \<Longrightarrow> m_noise d = Some (fst (decrypt api x n)) \<Longrightarrow> talks api c d"
  unfolding talks_def by (rule exI [of _ "[]"]) (use speaks.hush fits_decrypt in fastforce)

lemma talks_read: "m_socket d = m_socket c \<Longrightarrow> m_noise c = Some n \<Longrightarrow> m_noise d = Some (fst (readHandshake api x n)) \<Longrightarrow> talks api c d"
  unfolding talks_def by (rule exI [of _ "[]"]) (use speaks.hush fits_read in fastforce)

lemma encrypt_seal:
  "m_sendCipher n = Some c \<Longrightarrow> seal api p c = (c', x) \<Longrightarrow> encrypt api p n = (n\<lparr>m_sendCipher := Some c'\<rparr>, x)"
  by (auto simp: encrypt_def seal_def split: prod.splits option.splits)

lemma talks_send: "talks api c (sendMessage api t p c)"
proof (cases "\<exists>n. m_noise c = Some n \<and> m_complete n")
  case True
  then obtain n where n: "m_noise c = Some n" "m_complete n" by blast
  let ?m = "message_inner (msg_id t) p"
  obtain n' x where e: "encrypt api ?m n = (n', x)" by (cases "encrypt api ?m n")
  have d: "sendMessage api t p c = sendRaw (frame_of x) (c\<lparr>m_noise := Some n'\<rparr>)"
    using n e by (simp add: sendMessage_def)
  have "\<exists>u. speaks api key [Write (frame_of x)] s u \<and> fits api key (Some n') u" if f: "fits api key (Some n) s" for key s
  proof -
    obtain k where k: "m_sendCipher n = Some k"
      using f n(2) noise_of_inv [of api key n] by (auto simp: fits_def noise_inv_def)
    obtain k' y where y: "seal api ?m k = (k', y)" by (cases "seal api ?m k")
    have n': "n' = n\<lparr>m_sendCipher := Some k'\<rparr>" "y = x" using encrypt_seal [OF k y] e by simp_all
    have "noise_of api key n'" using f noise_of_step [of api key n "CallEncrypt ?m"] e by (simp add: fits_def)
    then have t: "fits api key (Some n') (Speaking k')" using n n' by (simp add: fits_def)
    have "s = Greeted \<and> agreed api key k \<or> s = Speaking k" using f n(2) k by (simp add: fits_def)
    then have "speaks api key [Write (frame_of x)] s (Speaking k')"
      using y n'(2) speaks.hush by (auto intro: speaks.intros)
    with t show ?thesis by blast
  qed
  then show ?thesis
    unfolding talks_def by (intro exI [of _ "[Write (frame_of x)]"]) (simp add: d n sendRaw_def sock_def)
next
  case False
  then have "sendMessage api t p c = c" by (auto simp: sendMessage_def split: option.splits)
  then show ?thesis by simp
qed

lemma steady_trans: "steady api a b \<Longrightarrow> steady api b c \<Longrightarrow> steady api a c"
  unfolding steady_def using keeps_trans talks_trans by metis

lemma fine_trans: "fine api a b \<Longrightarrow> fine api b c \<Longrightarrow> fine api a c"
  unfolding fine_def using steady_trans by metis

lemma fine_refl [simp]: "fine api cw cw"
  by (simp add: fine_def steady_def)

lemma fineI:
  assumes "m_device c' = m_device c" "keeps (w_devices W) (w_devices W')" "talks api c c'"
    "conn_ok c \<Longrightarrow> conn_ok c'"
    "d_active (wdev W (m_device c)) \<Longrightarrow> d_active (wdev W' (m_device c)) \<Longrightarrow> parked c \<Longrightarrow> parked c'"
  shows "fine api (c, W) (c', W')"
  using assms by (auto simp: fine_def steady_def live_def keeps_def same_identity_def wdev_def split: if_splits)

lemma fine_world:
  assumes "keeps (w_devices W) (w_devices W')"
  shows "fine api (c, W) (c, W')"
  using assms by (auto intro: fineI)

text \<open>Changes of a connection that leave what \<open>fine\<close> looks at alone.\<close>

lemma fine_conn:
  assumes "m_device c' = m_device c" "m_state c' = m_state c" "m_pingTimer c' = m_pingTimer c"
    "m_handshakeTimer c' = m_handshakeTimer c" "sock_open c' = sock_open c" "m_noise c' = m_noise c"
    "m_reconnectTimer c' = m_reconnectTimer c" "m_socket c' = m_socket c"
  shows "fine api (c, W) (c', W)"
proof (rule fineI)
  have "conn_ok c' = conn_ok c" unfolding conn_ok_def assms ..
  then show "conn_ok c \<Longrightarrow> conn_ok c'" by simp
qed (simp_all add: assms parked_def)

lemma noise_inv_encrypt: "noise_inv n \<Longrightarrow> noise_inv (fst (encrypt api d n))"
  using noise_inv_call [of n api "CallEncrypt d"] by simp

lemma noise_inv_decrypt: "noise_inv n \<Longrightarrow> noise_inv (fst (decrypt api d n))"
  using noise_inv_call [of n api "CallDecrypt d"] by simp

lemma noise_inv_read: "noise_inv n \<Longrightarrow> noise_inv (fst (readHandshake api d n))"
  using noise_inv_call [of n api "CallReadHandshake d"] by simp

lemma complete_encrypt [simp]: "m_complete (fst (encrypt api d n)) = m_complete n"
  by (auto simp: encrypt_def split: option.splits prod.splits)

lemma complete_decrypt [simp]: "m_complete (fst (decrypt api d n)) = m_complete n"
  by (auto simp: decrypt_def split: option.splits prod.splits)

lemma sendMessage_fields:
  "sendMessage api t p c =
     c\<lparr>m_noise := m_noise (sendMessage api t p c), m_socket := m_socket (sendMessage api t p c)\<rparr>"
  by (auto simp: sendMessage_def sendRaw_def sock_def split: option.splits prod.splits)

lemma sendMessage_more [simp]:
  "m_state (sendMessage api t p c) = m_state c" "m_device (sendMessage api t p c) = m_device c"
  "m_reconnectTimer (sendMessage api t p c) = m_reconnectTimer c" "sock_open (sendMessage api t p c) = sock_open c"
  by (subst sendMessage_fields, simp)+

lemma fine_send: "fine api (c, W) (sendMessage api t p c, W)"
proof (rule fineI)
  show "talks api c (sendMessage api t p c)" by (rule talks_send)
  show "conn_ok (sendMessage api t p c)" if "conn_ok c"
    using that noise_inv_encrypt
    by (fastforce simp: sendMessage_def sendRaw_def sock_def conn_ok_def prod.case_eq_if split: option.splits)
qed (simp_all add: parked_def)

lemma fine_go_offline: "keeps (w_devices W) (w_devices (go_offline S r W))"
  using keeps_on_dev [of "\<lambda>d. d\<lparr>d_availability := Offline\<rparr>" W r]
  by (simp add: go_offline_def same_identity_def)

lemma keeps_touch_seen: "keeps (w_devices W) (w_devices (touch_seen S r W))"
  using keeps_on_dev [of "\<lambda>d. d\<lparr>d_lastSeen := w_now W\<rparr>" W r]
  by (simp add: touch_seen_def same_identity_def)
lemma fine_onDisconnected: "fine api cw (onDisconnected S cw)"
proof -
  obtain c W where cw: "cw = (c, W)" by (cases cw)
  define W' where "W' = (if link_up (m_state c) then
      foldl (\<lambda>W sub. go_offline S sub W) (go_offline S (m_device c) W)
        (knownSubDevices (s_env S) (c\<lparr>m_pingTimer := False, m_handshakeTimer := False, m_rxBuf := [],
            m_noiseHandshakeState := 0, sock_open := False, m_state := Disconnected, m_noise := None\<rparr>)
          (w_devices (go_offline S (m_device c) W)))
    else W)"
  have W': "keeps (w_devices W) (w_devices W')"
    unfolding W'_def
    by (cases "link_up (m_state c)")
      (simp_all del: keeps_refl add: keeps_refl [of "w_devices W"] keeps_trans [OF fine_go_offline keeps_foldl [of "\<lambda>W sub. go_offline S sub W", OF fine_go_offline]])
  let ?c = "c\<lparr>m_pingTimer := False, m_handshakeTimer := False, m_rxBuf := [], m_noiseHandshakeState := 0,
      sock_open := False, m_state := Disconnected, m_noise := None\<rparr>"
  have eq: "onDisconnected S cw = arm_reconnect (?c, W')"
    by (simp add: cw onDisconnected_def W'_def Let_def)
  have c: "m_reconnectTimer (fst (arm_reconnect (?c, W')))" if "d_active (wdev W' (m_device c))"
    using that by (simp add: arm_reconnect_def on_conn_def)
  have "arm_reconnect (?c, W') = (fst (arm_reconnect (?c, W')), W')"
    by (simp add: arm_reconnect_def on_conn_def)
  then show ?thesis
    unfolding eq unfolding cw
    by (rule ssubst, intro fineI)
      (use W' c in \<open>auto intro: talks_hangup simp: arm_reconnect_def on_conn_def conn_defs parked_def\<close>)
qed

lemma fine_arm: "fine api cw (arm_reconnect cw)"
  by (cases cw) (auto simp: arm_reconnect_def on_conn_def conn_ok_def parked_def intro!: fineI split: option.splits if_splits)

text \<open>Recording a socket call that writes nothing.\<close>

lemma fine_sock:
  assumes "\<And>d. x \<noteq> Write d"
  shows "fine api (c, W) (sock x (c\<lparr>sock_sync := ys\<rparr>), W)"
proof (rule fineI)
  show "talks api c (sock x (c\<lparr>sock_sync := ys\<rparr>))"
    using assms by (intro talks_call [where x = x]) (simp_all add: sock_def)
qed (auto simp: sock_def conn_ok_def parked_def split: option.splits)

lemma fine_sock_down:
  assumes "\<And>d. x \<noteq> Write d"
  shows "fine api cw (sock_down S x cw)"
proof -
  obtain c W where cw: "cw = (c, W)" by (cases cw)
  have f: "fine api cw (on_conn (\<lambda>conn. sock x (conn\<lparr>sock_sync := tl (sock_sync conn)\<rparr>)) cw)"
    using fine_sock [OF assms] by (simp add: cw on_conn_def)
  show ?thesis
    using f fine_trans [OF f fine_onDisconnected] by (simp add: sock_down_def Let_def)
qed

lemma fine_close [simp]: "fine api cw (sock_down S DisconnectFromHost cw)"
  by (rule fine_sock_down) simp

text \<open>Aborting an open socket always runs the \<^verbatim>\<open>disconnected\<close> slot.\<close>

lemma onDisconnected_fields [simp]:
  "m_state (fst (onDisconnected S cw)) = Disconnected" "m_noise (fst (onDisconnected S cw)) = None"
  "\<not> m_pingTimer (fst (onDisconnected S cw))" "\<not> m_handshakeTimer (fst (onDisconnected S cw))"
  "m_device (fst (onDisconnected S cw)) = m_device (fst cw)" "\<not> sock_open (fst (onDisconnected S cw))"
  by (simp_all add: onDisconnected_def arm_reconnect_def on_conn_def Let_def)

lemma abort_state:
  assumes "conn_ok c"
  shows "m_state (fst (sock_down S Abort (c, W))) = Disconnected \<or>
     m_state (fst (sock_down S Abort (c, W))) = Connecting \<and> m_state c = Connecting"
  using assms
  by (cases "m_state c")
    (auto simp: sock_down_def conn_defs on_conn_def sock_def Let_def)
lemma conn_ok_onDisconnected [simp]: "conn_ok (fst (onDisconnected S cw))"
  by (simp add: conn_defs)

lemma fine_connect: "fine api cw (connectToDevice cw)"
proof -
  obtain c W where cw: "cw = (c, W)" by (cases cw)
  show ?thesis
    unfolding cw connectToDevice_def on_conn_def
    by (auto intro!: fineI talks_call simp: sock_def conn_defs parked_def split: option.splits)
qed

lemma fine_ping: "fine api cw (onPingTimer api cw)"
  by (cases cw) (simp add: onPingTimer_def on_conn_def fine_send)

lemma fine_sendCommand: "fine api (c, W) (sendCommand S api d i action v c, W)"
  using fine_send by (auto simp: sendCommand_def split: option.splits)

text \<open>The invariants of a handler that changes the state in the middle follow from its end points.\<close>

lemma fine_cut:
  assumes "steady api (c0, W) cw'" "m_device c0 = m_device c" "m_socket c0 = m_socket c" "m_noise c0 = m_noise c"
    "conn_ok c \<Longrightarrow> conn_ok (fst cw')" "live (c, W) \<Longrightarrow> live cw'"
  shows "fine api (c, W) cw'"
  using assms by (auto simp: fine_def steady_def talks_def)

lemma abort_closes [simp]: "\<not> sock_open (fst (sock_down S Abort cw))"
  by (auto simp: sock_down_def Let_def on_conn_def sock_def)

lemma steady_abort: "steady api cw (sock_down S Abort cw)"
  using fine_sock_down [of Abort api cw S] by (simp add: fine_def)

lemma abort_open: "sock_open c \<Longrightarrow> \<exists>cw1. sock_down S Abort (c, W) = onDisconnected S cw1"
  unfolding sock_down_def Let_def fst_conv snd_conv by (rule exI) simp

lemma fine_handshake_timer:
  assumes "m_handshakeTimer (fst cw)"
  shows "fine api cw (onHandshakeTimer S cw)"
proof -
  obtain c W where cw: "cw = (c, W)" by (cases cw)
  let ?c0 = "c\<lparr>m_handshakeTimer := False\<rparr>"
  have f: "fine api (?c0, W) (sock_down S Abort (?c0, W))" by (rule fine_sock_down) simp
  show ?thesis
    unfolding cw onHandshakeTimer_def on_conn_def fst_conv snd_conv
  proof (rule fine_cut [of api ?c0])
    show "live (sock_down S Abort (?c0, W))" if "live (c, W)"
      using f that by (simp add: fine_def live_def parked_def)
    show "conn_ok (fst (sock_down S Abort (?c0, W)))" if "conn_ok c"
    proof -
      have "sock_open ?c0" using that assms cw by (auto simp: conn_ok_def)
      then obtain cw1 where "sock_down S Abort (?c0, W) = onDisconnected S cw1"
        using abort_open by blast
      then show ?thesis by simp
    qed
  qed (simp_all add: steady_abort)
qed

lemma conn_ok_reset:
  assumes "conn_ok c" "m_state c = Disconnected \<or> m_state c = Connecting"
  shows "conn_ok (c\<lparr>m_reconnectTimer := b, m_state := Disconnected\<rparr>)"
proof -
  have "\<not> link_up (m_state c)" "\<not> in_handshake (m_state c)" "\<not> link_up Disconnected" "\<not> in_handshake Disconnected"
    using assms(2) by (auto simp: state_defs)
  then show ?thesis using assms(1) by (simp add: conn_ok_def)
qed

lemma fine_reconnect_timer: "fine api cw (onReconnectTimer S cw)"
proof -
  obtain c W where cw: "cw = (c, W)" by (cases cw)
  let ?c0 = "c\<lparr>m_reconnectTimer := False\<rparr>"
  obtain c1 W1 where a: "sock_down S Abort (?c0, W) = (c1, W1)" by (cases "sock_down S Abort (?c0, W)")
  let ?c2 = "c1\<lparr>m_reconnectTimer := False, m_state := Disconnected\<rparr>"
  have st: "steady api (?c0, W) (c1, W1)" using steady_abort [of api "(?c0, W)" S] a by simp
  have ok: "conn_ok ?c2" if "conn_ok c"
  proof -
    have "conn_ok ?c0" using that by (simp add: conn_ok_def)
    then have "conn_ok c1" "m_state c1 = Disconnected \<or> m_state c1 = Connecting"
      using abort_state [of ?c0 S W] st a by (auto simp: steady_def)
    then show ?thesis by (rule conn_ok_reset)
  qed
  have st2: "steady api (?c0, W) (?c2, W1)" if "conn_ok c"
    using st ok that by (auto simp: steady_def talks_def)
  have eq: "onReconnectTimer S cw = (if d_active (wdev W1 (m_device c1)) then connectToDevice (?c2, W1) else (?c2, W1))"
    by (simp add: onReconnectTimer_def cw on_conn_def a Let_def)
  have closed: "\<not> sock_open c1"
    using abort_closes [of S "(?c0, W)"] a by simp
  have m: "m_device c1 = m_device c" "keeps (w_devices W) (w_devices W1)" "talks api c c1"
    using st by (simp_all add: steady_def talks_def)
  let ?c3 = "sock (ConnectToHost (d_host (wdev W1 (m_device c1))) (d_port (wdev W1 (m_device c1))))
      (?c2\<lparr>m_state := Connecting, m_rxBuf := [], m_noiseHandshakeState := 0\<rparr>)"
  have eq': "onReconnectTimer S cw = (if d_active (wdev W1 (m_device c1)) then (?c3, W1) else (?c2, W1))"
    unfolding eq connectToDevice_def by (simp add: on_conn_def)
  have f2: "fine api (c, W) (?c2, W1)" if "\<not> d_active (wdev W1 (m_device c))"
    by (rule fineI) (use m ok that in \<open>simp_all add: talks_def\<close>)
  have f3: "fine api (c, W) (?c3, W1)"
  proof (rule fineI)
    show "talks api c ?c3"
      by (rule talks_trans [OF m(3)], rule talks_call
          [where x = "ConnectToHost (d_host (wdev W1 (m_device c1))) (d_port (wdev W1 (m_device c1)))"]) (simp_all add: sock_def)
    show "conn_ok ?c3" if "conn_ok c"
      using ok [OF that] by (auto simp: conn_defs sock_def split: option.splits)
  qed (use m closed in \<open>simp_all add: sock_def parked_def\<close>)
  show ?thesis
    unfolding eq' unfolding cw using f2 f3 m(1) by simp
qed

text \<open>A requested disconnect.\<close>

lemma steady_disconnect: "steady api cw (disconnectFromDevice S cw)"
proof -
  obtain c W where cw: "cw = (c, W)" by (cases cw)
  let ?c = "c\<lparr>m_pingTimer := False, m_reconnectTimer := False, m_handshakeTimer := False, m_state := Disconnected\<rparr>"
  have "conn_ok ?c" if "conn_ok c"
    using that by (auto simp: conn_defs split: option.splits)
  then have "steady api (c, W) (?c, W)"
    by (simp add: steady_def)
  moreover have "steady api (?c, W) (sock_down S DisconnectFromHost (?c, W))"
    using fine_close [of api "(?c, W)" S] by (simp add: fine_def)
  ultimately show ?thesis
    unfolding cw disconnectFromDevice_def on_conn_def fst_conv snd_conv by (rule steady_trans)
qed

text \<open>The \<^verbatim>\<open>connected\<close> slot writes the handshake in the clear; everything else holds.\<close>

lemma onConnected_parts:
  assumes "onConnected api (c, W) = (c', W')"
  shows "W' = W" "m_device c' = m_device c" "m_state c' = ServerHello" "conn_ok c \<Longrightarrow> \<not> sock_open c \<Longrightarrow> conn_ok c'"
proof -
  obtain n h where n: "writeHandshake api (noise_new api (d_encryptionKey (wdev W (m_device c)))) = (n, h)"
    by (cases "writeHandshake api (noise_new api (d_encryptionKey (wdev W (m_device c))))")
  have i: "noise_inv n" "\<not> m_complete n"
    using noise_inv_call [of "noise_new api (d_encryptionKey (wdev W (m_device c)))" api CallWriteHandshake] n
    by (auto simp: writeHandshake_def noise_new_def noise_inv_def split: option.splits prod.splits if_splits)
  show "W' = W" "m_device c' = m_device c" "m_state c' = ServerHello" "conn_ok c \<Longrightarrow> \<not> sock_open c \<Longrightarrow> conn_ok c'"
    using assms i by (auto simp: onConnected_def on_conn_def n Let_def sendRaw_def sock_def conn_defs)
qed

lemma onConnected_says:
  assumes "onConnected api (c, W) = (c', W')"
  defines "key \<equiv> d_encryptionKey (wdev W (m_device c))"
  shows "m_socket c' = m_socket c @ [Write (greeting api key)]" "fits api key (m_noise c') Greeted"
proof -
  have w: "noise_of api key (fst (writeHandshake api (noise_new api key)))"
    using noise_of_step [OF noise_of_new, of api key CallWriteHandshake] by simp
  have i: "\<not> m_complete (fst (writeHandshake api (noise_new api key)))"
    by (auto simp: writeHandshake_def noise_new_def split: option.splits prod.splits)
  show "m_socket c' = m_socket c @ [Write (greeting api key)]" "fits api key (m_noise c') Greeted"
    using assms w i by (auto simp: onConnected_def on_conn_def Let_def sendRaw_def sock_def greeting_def fits_def split: prod.splits)
qed

subsection \<open>Messages respect it\<close>

lemma info_field_sys:
  assumes "info_field S f cw = Some cw'"
  shows "\<exists>x. fst cw' = (fst cw)\<lparr>m_subDeviceNames := x\<rparr> \<and> keeps (w_devices (snd cw)) (w_devices (snd cw'))"
proof (cases "fld f 20 2 \<and> \<not> fld f 4 2 \<and> \<not> fld f 6 2 \<and> \<not> fld f 12 2")
  case True
  with assms obtain sfs k n where "foldl (sub_info (s_env S)) (0, []) sfs = (k, n)"
    and "cw' = (if 0 < k then on_conn (\<lambda>conn. conn\<lparr>m_subDeviceNames := qm_insert k n (m_subDeviceNames conn)\<rparr>) cw else cw)"
    by (cases "foldl (sub_info (s_env S)) (0, []) (the (decode (m_raw f)))") (auto simp: info_field_def Let_def)
  then show ?thesis
    by (auto simp: on_conn_def intro: exI [of _ "m_subDeviceNames (fst cw)"])
next
  case False
  with assms show ?thesis
    by (auto simp: info_field_def Let_def on_world_def same_identity_def intro!: keeps_upd_dev
        intro: exI [of _ "m_subDeviceNames (fst cw)"] split: if_splits)
qed

lemma info_fields_sys:
  "info_fields S fs cw = Some cw' \<Longrightarrow>
     \<exists>x. fst cw' = (fst cw)\<lparr>m_subDeviceNames := x\<rparr> \<and> keeps (w_devices (snd cw)) (w_devices (snd cw'))"
proof (induction fs arbitrary: cw)
  case Nil
  then show ?case by (auto intro: exI [of _ "m_subDeviceNames (fst cw)"])
next
  case (Cons f fs)
  from Cons.prems obtain cw1 where 1: "info_field S f cw = Some cw1" and 2: "info_fields S fs cw1 = Some cw'"
    by (auto simp: Option.bind_eq_Some_conv)
  from info_field_sys [OF 1] Cons.IH [OF 2] show ?case
    by (auto intro: keeps_trans)
qed

text \<open>A change of state among the states after the handshake.\<close>

lemma fine_up:
  assumes "link_up (m_state c)" "link_up s" "m_device c' = m_device c" "m_pingTimer c' = m_pingTimer c"
    "m_handshakeTimer c' = m_handshakeTimer c" "sock_open c' = sock_open c" "m_noise c' = m_noise c"
    "m_socket c' = m_socket c" "m_state c' = s" "keeps (w_devices W) (w_devices W')"
  shows "fine api (c, W) (c', W')"
proof (rule fineI)
  have "\<not> in_handshake (m_state c)" "\<not> in_handshake s" "m_state c \<noteq> ClientHello" "s \<noteq> ClientHello"
    using assms(1,2) by (auto simp: state_defs)
  then show "conn_ok c \<Longrightarrow> conn_ok c'" using assms by (simp add: conn_ok_def)
next
  have "m_state c' \<noteq> Disconnected" "m_state c' \<noteq> Connecting" using assms(2,9) by (auto simp: link_up_def)
  then show "parked c'" by (simp add: parked_def)
qed (simp_all add: assms)

lemma fine_deviceInfo:
  assumes "processDeviceInfo S api payload cw = Some cw'" "link_up (m_state (fst cw))"
  shows "fine api cw cw'"
proof -
  obtain c W where cw: "cw = (c, W)" by (cases cw)
  from assms(1) obtain fs c1 W1 where f: "info_fields S fs (c\<lparr>m_subDeviceNames := []\<rparr>, W) = Some (c1, W1)"
    and cw': "cw' = on_conn (\<lambda>conn. sendMessage api ListEntitiesRequest [] (conn\<lparr>m_pendingEntities := [], m_state := ListEntities\<rparr>)) (c1, W1)"
    by (auto simp: processDeviceInfo_def cw on_conn_def Option.bind_eq_Some_conv)
  from info_fields_sys [OF f] obtain x where c1: "c1 = c\<lparr>m_subDeviceNames := x\<rparr>" and k: "keeps (w_devices W) (w_devices W1)"
    by auto
  let ?c2 = "c1\<lparr>m_pendingEntities := [], m_state := ListEntities\<rparr>"
  have "fine api (c, W) (?c2, W1)"
    by (rule fine_up [of c ListEntities]) (use assms(2) cw c1 k in \<open>auto simp: link_up_def\<close>)
  then show ?thesis
    unfolding cw cw' on_conn_def fst_conv snd_conv by (rule fine_trans) (rule fine_send)
qed

lemma fine_entityInfo:
  assumes "processEntityInfo E t payload c = Some c'"
  shows "fine api (c, W) (c', W)"
  using assms by (auto simp: processEntityInfo_def Let_def intro!: fine_conn split: if_splits)

lemma keeps_stateUpdate:
  assumes "processStateUpdate S t payload c W = Some W'"
  shows "keeps (w_devices W) (w_devices W')"
proof -
  have "same_identity d ((update_endpoint i f d)\<lparr>d_lastSeen := n\<rparr>)" for d i f n
    by (simp add: same_identity_def update_endpoint_def split: option.splits)
  then show ?thesis
    using assms
    by (auto simp: processStateUpdate_def apply_state_devices intro!: keeps_upd_dev split: prod.splits option.splits)
qed

lemma fine_message:
  assumes "processMessage S api mtype payload cw = Some cw'" "link_up (m_state (fst cw))"
  shows "fine api cw cw'"
proof -
  obtain c W where cw: "cw = (c, W)" by (cases cw)
  show ?thesis
  proof (cases "msg_of mtype")
    case None
    with assms show ?thesis by (simp add: processMessage_def)
  next
    case (Some t)
    note p = assms(1) [unfolded processMessage_def Some option.case cw fst_conv snd_conv]
    have ping: "keeps (w_devices W) (w_devices (foldl (\<lambda>W sub. touch_seen S sub W) (touch_seen S r W) subs))" for r subs
      by (rule keeps_trans [OF keeps_touch_seen keeps_foldl [OF keeps_touch_seen]])
    have finish: "fine api (c, W) (sendMessage api SubscribeStates [] (c\<lparr>m_state := Subscribe\<rparr>), applyDiscoveredEntities S c W)"
      by (rule fine_trans [OF fine_up [of c Subscribe "c\<lparr>m_state := Subscribe\<rparr>" W "applyDiscoveredEntities S c W"] fine_send])
        (use assms(2) cw keeps_applyDiscovered in \<open>auto simp: link_up_def\<close>)
    have leave: "fine api (c, W) (sock_down S DisconnectFromHost (on_conn (sendMessage api DisconnectResponse []) (c, W)))"
      unfolding on_conn_def by (rule fine_trans [OF _ fine_close]) (simp add: fine_send)
    show ?thesis
      using p fine_deviceInfo [OF _ assms(2), of S api payload cw'] leave finish fine_entityInfo fine_send keeps_stateUpdate
      unfolding cw
      by (auto simp: on_conn_def on_world_def Let_def intro!: fine_world ping split: if_splits)
  qed
qed

end
