(* ===== verification/Lifecycle.thy ===== *)
theory Lifecycle
  imports Connection
begin

text \<open>
  The runs of a connection: \<open>conn_step\<close> is the transition relation of src/esphome.cpp's
  \<^verbatim>\<open>EspHomeDevice\<close> under Qt's event loop, one rule per slot or public operation, guarded by the timer
  that is armed. \<open>Outside\<close> is everything other parts of the service do in between: the world may
  change, and the way the socket will close is decided anew.

  The abstract specifications are the locale \<open>lifecycle\<close>, by which a link goes through a handshake before
  it is up, and the automaton \<open>speaks\<close> of what may be written when.
\<close>

subsection \<open>One round of the receive loop\<close>

lemma fine_adopt: "fine api cw (adopt_name S payload cw)"
  by (cases cw)
    (auto simp: adopt_name_def Let_def on_world_def same_identity_def intro!: fine_world keeps_upd_dev)

lemma adopt_state [simp]: "fst (adopt_name S payload cw) = fst cw"
  by (simp add: adopt_name_def Let_def on_world_def)

text \<open>The handshake goes on, or completes.\<close>

lemma fine_hello:
  assumes "m_state c = ServerHello" "keeps (w_devices W) (w_devices W')"
  shows "fine api (c, W) (c\<lparr>m_state := NoiseHandshake\<rparr>, W')"
proof (rule fineI)
  show "conn_ok c \<Longrightarrow> conn_ok (c\<lparr>m_state := NoiseHandshake\<rparr>)"
    using assms(1) by (simp add: conn_defs)
qed (use assms in \<open>simp_all add: parked_def\<close>)

lemma fine_keyed:
  assumes "m_state c = NoiseHandshake" "m_noise c = Some n" "keeps (w_devices W) (w_devices W')"
    "readHandshake api d n = (n', ok)"
  shows "fine api (c, W) (c\<lparr>m_noise := Some n', m_state := if ok then Ready else NoiseHandshake,
     m_handshakeTimer := \<not> ok, m_pingTimer := ok\<rparr>, W')"
proof (rule fineI)
  assume "conn_ok c"
  then have "noise_inv n" "\<not> m_complete n" "sock_open c"
    using assms(1,2) by (simp_all add: conn_defs)
  moreover from this have "noise_inv n'" "m_complete n' = ok"
    using noise_inv_read [of n api d] readHandshake_complete [of n api d] assms(4) by simp_all
  ultimately show "conn_ok (c\<lparr>m_noise := Some n', m_state := if ok then Ready else NoiseHandshake,
     m_handshakeTimer := \<not> ok, m_pingTimer := ok\<rparr>)"
    by (simp add: conn_defs)
next
  show "talks api c (c\<lparr>m_noise := Some n', m_state := if ok then Ready else NoiseHandshake,
     m_handshakeTimer := \<not> ok, m_pingTimer := ok\<rparr>)"
    by (rule talks_read [OF _ assms(2), of _ api d]) (use assms(4) in simp_all)
qed (use assms in \<open>auto simp: parked_def\<close>)

lemma fine_decrypted:
  assumes "link_up (m_state c)" "m_noise c = Some n" "decrypt api d n = (n', p)"
  shows "fine api (c, W) (c\<lparr>m_noise := Some n'\<rparr>, W)"
proof (rule fineI)
  assume "conn_ok c"
  then show "conn_ok (c\<lparr>m_noise := Some n'\<rparr>)"
    using assms noise_inv_decrypt [of n api d] complete_decrypt [of api d n] by (auto simp: conn_ok_def)
next
  show "talks api c (c\<lparr>m_noise := Some n'\<rparr>)"
    by (rule talks_decrypt [OF _ assms(2), of _ api d]) (use assms(3) in simp_all)
qed (simp_all add: parked_def)

lemma handle_up: "link_up (m_state (fst cw)) \<Longrightarrow> handle_frame S api payload cw = encrypted_frame S api payload cw"
  by (cases "m_state (fst cw)") (simp_all add: handle_frame_def link_up_def)

lemma fine_encrypted:
  assumes "encrypted_frame S api payload cw = Some (goon, cw')" "link_up (m_state (fst cw))"
  shows "fine api cw cw'"
proof -
  obtain c W where cw: "cw = (c, W)" by (cases cw)
  show ?thesis
  proof (cases "\<exists>n. m_noise c = Some n \<and> m_complete n")
    case False
    with assms(1) show ?thesis by (auto simp: encrypted_frame_def cw split: option.splits)
  next
    case True
    then obtain n n' p where n: "m_noise c = Some n" "m_complete n" and d: "decrypt api payload n = (n', p)"
      by (cases "decrypt api payload (the (m_noise c))") auto
    let ?cw1 = "(c\<lparr>m_noise := Some n'\<rparr>, W)"
    have f: "fine api cw ?cw1" using fine_decrypted [OF _ n(1) d] assms(2) cw by simp
    have "cw' = sock_down S DisconnectFromHost ?cw1 \<or> cw' = ?cw1 \<or>
        (\<exists>mtype data. processMessage S api mtype data ?cw1 = Some cw')"
      using assms(1) n d by (auto simp: encrypted_frame_def cw on_conn_def Let_def split: if_splits prod.splits)
    then show ?thesis
      using f fine_trans [OF f fine_close] fine_trans [OF f fine_message [of S api _ _ ?cw1 cw']] assms(2) cw by auto
  qed
qed

lemma fine_frame:
  assumes "handle_frame S api payload cw = Some (goon, cw')"
  shows "fine api cw cw'"
proof -
  obtain c W where cw: "cw = (c, W)" by (cases cw)
  show ?thesis
  proof (cases "m_state c")
    case ServerHello
    obtain W1 where a: "adopt_name S payload (c, W) = (c, W1)" "keeps (w_devices W) (w_devices W1)"
      using fine_adopt [of undefined "(c, W)" S payload] adopt_state [of S payload "(c, W)"]
      by (cases "adopt_name S payload (c, W)") (auto simp: fine_def steady_def)
    show ?thesis
      using assms ServerHello a(1) fine_hello [OF ServerHello a(2)]
      by (auto simp: handle_frame_def cw on_conn_def split: if_splits)
  next
    case NoiseHandshake
    show ?thesis
    proof (cases "payload = [] \<or> payload ! 0 \<noteq> 0x00")
      case True
      then show ?thesis using assms NoiseHandshake by (auto simp: handle_frame_def cw)
    next
      case False
      then obtain n n' ok where n: "m_noise c = Some n" and r: "readHandshake api (qba_mid payload 1 (-1)) n = (n', ok)"
        using assms NoiseHandshake by (cases "readHandshake api (qba_mid payload 1 (-1)) (the (m_noise c))")
          (auto simp: handle_frame_def cw split: option.splits)
      have u: "keeps (w_devices W) (w_devices (on_dev (m_device c) (\<lambda>d. d\<lparr>d_lastSeen := w_now W, d_availability := Online\<rparr>) W))"
        by (rule keeps_on_dev) (simp add: same_identity_def)
      show ?thesis
      proof (cases ok)
        case True
        then have "cw' = (sendMessage api HelloRequest (hello_request S)
            (c\<lparr>m_noise := Some n', m_state := Ready, m_handshakeTimer := False, m_pingTimer := True\<rparr>),
            on_dev (m_device c) (\<lambda>d. d\<lparr>d_lastSeen := w_now W, d_availability := Online\<rparr>) W)"
          using assms NoiseHandshake False n r by (auto simp: handle_frame_def cw on_conn_def on_world_def Let_def)
        then show ?thesis
          using fine_trans [OF fine_keyed [OF NoiseHandshake n u r] fine_send [where t = HelloRequest and p = "hello_request S"]]
            True cw by simp
      next
        case not_ok: False
        then have c': "cw' = sock_down S DisconnectFromHost (c\<lparr>m_noise := Some n'\<rparr>, W)"
          using assms NoiseHandshake False n r by (auto simp: handle_frame_def cw on_conn_def Let_def)
        have c1: "c\<lparr>m_noise := Some n'\<rparr> = c\<lparr>m_noise := Some n', m_state := NoiseHandshake, m_handshakeTimer := m_handshakeTimer c,
            m_pingTimer := m_pingTimer c\<rparr>" using NoiseHandshake by simp
        have "fine api (c, W) (c\<lparr>m_noise := Some n'\<rparr>, W)"
        proof (rule fineI)
          assume "conn_ok c"
          then show "conn_ok (c\<lparr>m_noise := Some n'\<rparr>)"
            using fine_keyed [OF NoiseHandshake n keeps_refl r] not_ok NoiseHandshake
            by (auto simp: fine_def steady_def conn_defs)
        next
          show "talks api c (c\<lparr>m_noise := Some n'\<rparr>)"
            by (rule talks_read [OF _ n, of _ api "qba_mid payload 1 (-1)"]) (use r in simp_all)
        qed (simp_all add: parked_def)
        then show ?thesis unfolding c' cw by (rule fine_trans) simp
      qed
    qed
  next
    case Ready
    then show ?thesis using assms fine_encrypted [of S api payload cw goon cw'] handle_up [of cw S api payload] cw
      by (simp add: link_up_def)
  next
    case ListEntities
    then show ?thesis using assms fine_encrypted [of S api payload cw goon cw'] handle_up [of cw S api payload] cw
      by (simp add: link_up_def)
  next
    case Subscribe
    then show ?thesis using assms fine_encrypted [of S api payload cw goon cw'] handle_up [of cw S api payload] cw
      by (simp add: link_up_def)
  qed (use assms cw in \<open>simp_all add: handle_frame_def\<close>)
qed
lemma fine_round:
  assumes "ready_round S api cw = Some (goon, cw')"
  shows "fine api cw cw'"
proof -
  obtain c W where cw: "cw = (c, W)" by (cases cw)
  show ?thesis
  proof (cases "next_frame (m_rxBuf c)")
    case (Item payload rest)
    have "fine api (c, W) (c\<lparr>m_rxBuf := rest\<rparr>, W)" by (rule fine_conn) simp_all
    moreover have "fine api (c\<lparr>m_rxBuf := rest\<rparr>, W) cw'"
      by (rule fine_frame [of S _ payload _ goon]) (use assms Item cw in \<open>simp add: ready_round_def on_conn_def\<close>)
    ultimately show ?thesis unfolding cw by (rule fine_trans)
  qed (use assms cw in \<open>auto simp: ready_round_def\<close>)
qed

subsection \<open>The loop ends\<close>

text \<open>
  A handler leaves the socket, the buffer and whether there is a Noise object alone; or it has run the
  \<^verbatim>\<open>disconnected\<close> slot.
\<close>

definition tidy :: "('h, 'c) EspHomeDevice \<Rightarrow> ('h, 'c) EspHomeDevice \<Rightarrow> bool" where
  "tidy c d =
     (sock_open d = sock_open c \<and> (m_noise d = None) = (m_noise c = None) \<and> m_rxBuf d = m_rxBuf c \<or>
      \<not> sock_open d \<and> m_noise d = None \<and> m_rxBuf d = [])"

lemma tidy_refl [simp]: "tidy c c"
  by (simp add: tidy_def)

lemma tidy_trans: "tidy a b \<Longrightarrow> tidy b c \<Longrightarrow> tidy a c"
  by (auto simp: tidy_def)

lemma tidy_shorter: "tidy c d \<Longrightarrow> length (m_rxBuf d) \<le> length (m_rxBuf c)"
  by (auto simp: tidy_def)

lemma onDisconnected_buffer [simp]: "m_rxBuf (fst (onDisconnected S cw)) = []"
  by (simp add: onDisconnected_def arm_reconnect_def on_conn_def Let_def)

lemma tidy_sock_down: "tidy (fst cw) (fst (sock_down S x cw))"
  by (auto simp: tidy_def sock_down_def Let_def on_conn_def sock_def)

lemma tidy_send: "tidy c (sendMessage api t p c)"
  by (auto simp: tidy_def sendMessage_def sendRaw_def sock_def split: option.splits prod.splits)

lemma rxBuf_send [simp]: "m_rxBuf (sendMessage api t p c) = m_rxBuf c"
  by (subst sendMessage_fields) simp

lemma tidy_message:
  assumes "processMessage S api mtype payload cw = Some cw'"
  shows "tidy (fst cw) (fst cw')"
proof (cases "msg_of mtype")
  case (Some t)
  have 1: "tidy (fst cw) (fst cw')" if di: "processDeviceInfo S api payload cw = Some cw'"
  proof -
    obtain fs cw1 where "info_fields S fs (on_conn (\<lambda>conn. conn\<lparr>m_subDeviceNames := []\<rparr>) cw) = Some cw1"
      and cw': "cw' = on_conn (\<lambda>conn. sendMessage api ListEntitiesRequest [] (conn\<lparr>m_pendingEntities := [], m_state := ListEntities\<rparr>)) cw1"
      using di by (auto simp: processDeviceInfo_def Option.bind_eq_Some_conv)
    then have "tidy (fst cw) ((fst cw1)\<lparr>m_pendingEntities := [], m_state := ListEntities\<rparr>)"
      using info_fields_sys by (fastforce simp: on_conn_def tidy_def)
    then show ?thesis unfolding cw' on_conn_def fst_conv by (rule tidy_trans) (rule tidy_send)
  qed
  have 2: "tidy c c'" if "processEntityInfo E t payload c = Some c'" for E and c c' :: "('a, 'b) EspHomeDevice"
    using that by (auto simp: processEntityInfo_def tidy_def Let_def split: if_splits)
  have 3: "tidy (fst cw) (fst (sock_down S DisconnectFromHost (on_conn (sendMessage api DisconnectResponse []) cw)))"
    by (rule tidy_trans [OF tidy_send tidy_sock_down [of "on_conn (sendMessage api DisconnectResponse []) cw", unfolded on_conn_def fst_conv, folded on_conn_def]])
  have 4: "tidy (fst cw) (sendMessage api SubscribeStates [] ((fst cw)\<lparr>m_state := Subscribe\<rparr>))"
    by (rule tidy_trans [OF _ tidy_send]) (simp add: tidy_def)
  show ?thesis
    using assms Some 1 2 3 4 tidy_send
    by (auto simp: processMessage_def on_conn_def on_world_def Let_def split: if_splits)
qed (use assms in \<open>simp add: processMessage_def\<close>)

lemma tidy_encrypted:
  assumes "encrypted_frame S api payload cw = Some (goon, cw')"
  shows "tidy (fst cw) (fst cw')"
proof (cases "\<exists>n. m_noise (fst cw) = Some n \<and> m_complete n")
  case False
  with assms show ?thesis by (auto simp: encrypted_frame_def split: option.splits)
next
  case True
  then obtain n n' p where n: "m_noise (fst cw) = Some n" "m_complete n" and d: "decrypt api payload n = (n', p)"
    by (cases "decrypt api payload (the (m_noise (fst cw)))") auto
  let ?cw1 = "on_conn (\<lambda>conn. conn\<lparr>m_noise := Some n'\<rparr>) cw"
  have t: "tidy (fst cw) (fst ?cw1)" using n(1) by (simp add: tidy_def on_conn_def)
  have "cw' = sock_down S DisconnectFromHost ?cw1 \<or> cw' = ?cw1 \<or>
      (\<exists>mtype data. processMessage S api mtype data ?cw1 = Some cw')"
    using assms n d by (auto simp: encrypted_frame_def Let_def split: if_splits prod.splits)
  then show ?thesis
    using t tidy_trans [OF t tidy_message [of S api _ _ ?cw1 cw']] tidy_trans [OF t tidy_sock_down [of ?cw1 S DisconnectFromHost]] by auto
qed

lemma tidy_frame:
  assumes "handle_frame S api payload cw = Some (goon, cw')"
  shows "tidy (fst cw) (fst cw')"
proof (cases "link_up (m_state (fst cw))")
  case True
  with assms show ?thesis using tidy_encrypted by (simp add: handle_up)
next
  case False
  have 1: "tidy (fst cw) (fst (sock_down S DisconnectFromHost (on_conn (\<lambda>conn. conn\<lparr>m_noise := Some n'\<rparr>) cw)))"
    if "m_noise (fst cw) = Some n" for n n'
    by (rule tidy_trans [OF _ tidy_sock_down]) (simp add: tidy_def on_conn_def that)
  have 2: "tidy (fst cw) (sendMessage api t p ((fst cw)\<lparr>m_noise := Some n', m_state := s, m_handshakeTimer := a, m_pingTimer := b\<rparr>))"
    if "m_noise (fst cw) = Some n" for n n' t p s a b
    by (rule tidy_trans [OF _ tidy_send]) (simp add: tidy_def that)
  have 3: "tidy c (c\<lparr>m_state := NoiseHandshake\<rparr>)" for c :: "('a, 'b) EspHomeDevice"
    by (simp add: tidy_def)
  show ?thesis
    using assms False tidy_sock_down [of cw S DisconnectFromHost] 1 2 3
    by (cases "m_state (fst cw)")
      (auto simp: handle_frame_def link_up_def Let_def on_conn_def on_world_def split: if_splits option.splits prod.splits)
qed

lemma round_shortens:
  assumes "ready_round S api cw = Some (True, cw')"
  shows "length (m_rxBuf (fst cw')) < length (m_rxBuf (fst cw))"
proof (cases "next_frame (m_rxBuf (fst cw))")
  case (Item payload rest)
  then have "length rest < length (m_rxBuf (fst cw))" by (rule frames.item_shrinks)
  then show ?thesis
    using assms Item tidy_shorter [OF tidy_frame [of S api payload "on_conn (\<lambda>conn. conn\<lparr>m_rxBuf := rest\<rparr>) cw" True cw']]
    by (simp add: ready_round_def on_conn_def)
qed (use assms in \<open>simp_all add: ready_round_def\<close>)
text \<open>The rounds of one call, and the message the next frame of a buffer carries.\<close>

inductive rounds :: "service \<Rightarrow> ('h, 'c) noise_api \<Rightarrow> ('h, 'c) sys \<Rightarrow> ('h, 'c) sys \<Rightarrow> bool"
  for S api where
  none: "rounds S api cw cw"
| more: "m_rxBuf (fst cw) \<noteq> [] \<Longrightarrow> ready_round S api cw = Some (True, cw1) \<Longrightarrow> rounds S api cw1 cw2 \<Longrightarrow> rounds S api cw cw2"

text \<open>
  A message with a length that is negative or overflows as an \<^verbatim>\<open>int\<close>: in itself, or in one of the
  sub-device descriptions (field 20) of a device info response.
\<close>

definition bad_message :: "quint16 \<Rightarrow> bytes \<Rightarrow> bool" where
  "bad_message mtype payload = (\<not> lengths_ok payload \<or>
     msg_of mtype = Some DeviceInfoResponse \<and>
       (\<exists>fs f. decode payload = Some fs \<and> f \<in> set fs \<and> fld f 20 2 \<and> \<not> lengths_ok (m_raw f)))"

text \<open>The message in the next frame of the buffer, when it decrypts to one.\<close>

definition next_message :: "('h, 'c) noise_api \<Rightarrow> ('h, 'c) EspHomeDevice \<Rightarrow> (quint16 \<times> bytes) option" where
  "next_message api conn =
     (case (next_frame (m_rxBuf conn), m_noise conn) of
        (Item payload rest, Some n) \<Rightarrow>
          (if length (snd (decrypt api payload n)) < 4 then None else Some (parse_inner (snd (decrypt api payload n))))
      | _ \<Rightarrow> None)"

lemma fine_rounds: "rounds S api cw cw' \<Longrightarrow> fine api cw cw'"
  by (induction rule: rounds.induct) (auto intro: fine_trans fine_round)

lemma loop_stuck:
  "ready_loop S api cw = None \<Longrightarrow> \<exists>cw1. rounds S api cw cw1 \<and> ready_round S api cw1 = None"
proof (induction "length (m_rxBuf (fst cw))" arbitrary: cw rule: less_induct)
  case less
  have ne: "m_rxBuf (fst cw) \<noteq> []"
    using less.prems by (auto simp: ready_loop.simps [of S api cw])
  show ?case
  proof (cases "ready_round S api cw")
    case None
    then show ?thesis using rounds.none by blast
  next
    case (Some r)
    then obtain cw1 where r: "ready_round S api cw = Some (True, cw1)" "ready_loop S api cw1 = None"
      using less.prems ne by (cases r) (auto simp: ready_loop.simps [of S api cw] split: if_splits)
    from less.hyps [OF round_shortens [OF r(1)] r(2)] show ?thesis
      using rounds.more [OF ne r(1)] by blast
  qed
qed

text \<open>A call that returns is a sequence of rounds, and at most one more that leaves the loop.\<close>

lemma loop_rounds:
  "ready_loop S api cw = Some cw' \<Longrightarrow>
     \<exists>cw1. rounds S api cw cw1 \<and> (cw' = cw1 \<or> ready_round S api cw1 = Some (False, cw'))"
proof (induction "length (m_rxBuf (fst cw))" arbitrary: cw rule: less_induct)
  case less
  show ?case
  proof (cases "m_rxBuf (fst cw) = []")
    case True
    then show ?thesis
      using less.prems by (intro exI [of _ cw]) (simp add: rounds.none ready_loop.simps [of S api cw])
  next
    case ne: False
    with less.prems obtain goon cw1 where r: "ready_round S api cw = Some (goon, cw1)"
      and c: "if goon then ready_loop S api cw1 = Some cw' else cw' = cw1"
      by (auto simp: ready_loop.simps [of S api cw] split: option.splits prod.splits if_splits)
    show ?thesis
    proof (cases goon)
      case True
      then have r1: "ready_round S api cw = Some (True, cw1)" using r by simp
      from less.hyps [OF round_shortens [OF r1]] c True show ?thesis
        using rounds.more [OF ne r1] by auto
    next
      case False
      then show ?thesis by (intro exI [of _ cw]) (use c r in \<open>simp add: rounds.none\<close>)
    qed
  qed
qed

lemma fine_loop: "ready_loop S api cw = Some cw' \<Longrightarrow> fine api cw cw'"
  using loop_rounds [of S api cw cw'] fine_rounds fine_round fine_trans by metis

lemma fine_data: "onReadyRead S api data cw = Some cw' \<Longrightarrow> fine api cw cw'"
proof -
  assume r: "onReadyRead S api data cw = Some cw'"
  obtain c W where cw: "cw = (c, W)" by (cases cw)
  have "fine api (c, W) (c\<lparr>m_rxBuf := m_rxBuf c @ data\<rparr>, W)" by (rule fine_conn) simp_all
  moreover have "fine api (c\<lparr>m_rxBuf := m_rxBuf c @ data\<rparr>, W) cw'"
    using r by (intro fine_loop [of S]) (simp add: onReadyRead_def cw on_conn_def)
  ultimately show ?thesis unfolding cw by (rule fine_trans)
qed

lemma info_field_stuck: "info_field S f cw = None \<Longrightarrow> fld f 20 2 \<and> decode (m_raw f) = None"
  by (auto simp: info_field_def Let_def split: if_splits)

lemma info_fields_stuck: "info_fields S fs cw = None \<Longrightarrow> \<exists>f \<in> set fs. fld f 20 2 \<and> decode (m_raw f) = None"
proof (induction fs arbitrary: cw)
  case (Cons f fs)
  then show ?case
    using info_field_stuck [of S f cw] by (cases "info_field S f cw") auto
qed simp

text \<open>Payloads are at most 65535 bytes long, and so are the messages nested in them.\<close>

lemma decode_stuck: "decode d = None \<Longrightarrow> length d < 2 ^ 31 - 8 \<Longrightarrow> \<not> lengths_ok d"
  using decode_loop_returns [of d 0 "[]"] by (auto simp: decode_def lengths_ok_def)

lemma nested_stuck:
  assumes "decode d = Some fs" "f \<in> set fs" "length d < 2 ^ 31 - 8" "decode (m_raw f) = None"
  shows "\<not> lengths_ok (m_raw f)"
  using decode_raw_length [OF assms(1,2)] assms(3) by (intro decode_stuck [OF assms(4)]) linarith

lemma deviceInfo_stuck:
  assumes "processDeviceInfo S api payload cw = None" "length payload < 2 ^ 31 - 8" "msg_of mtype = Some DeviceInfoResponse"
  shows "bad_message mtype payload"
proof (cases "decode payload")
  case (Some fs)
  then have "info_fields S fs (on_conn (\<lambda>conn. conn\<lparr>m_subDeviceNames := []\<rparr>) cw) = None"
    using assms by (simp add: processDeviceInfo_def)
  from info_fields_stuck [OF this] obtain f where "f \<in> set fs" "fld f 20 2" "decode (m_raw f) = None" by blast
  with nested_stuck [OF Some _ assms(2)] Some assms(3) show ?thesis by (auto simp: bad_message_def)
qed (use decode_stuck assms(2) in \<open>simp add: bad_message_def\<close>)

lemma message_stuck:
  assumes "processMessage S api mtype payload cw = None" "length payload < 2 ^ 31 - 8"
  shows "bad_message mtype payload"
proof (cases "msg_of mtype")
  case (Some t)
  have "t = DeviceInfoResponse \<and> processDeviceInfo S api payload cw = None \<or> decode payload = None"
    using assms Some
    by (simp add: processMessage_def processEntityInfo_def processStateUpdate_def Let_def split: if_splits)
  then show ?thesis
    using deviceInfo_stuck [of S api payload cw mtype] decode_stuck assms(2) Some by (auto simp: bad_message_def)
qed (use assms in \<open>simp add: processMessage_def\<close>)

lemma parse_inner_length: "length (snd (parse_inner p)) < 2 ^ 31 - 8"
proof -
  have "unat (of_be16 (p ! 2) (p ! 3)) < 2 ^ 16"
    using unsigned_less [where 'a = nat, of "of_be16 (p ! 2) (p ! 3)"] by simp
  moreover have "length (snd (parse_inner p)) \<le> nat (uint (of_be16 (p ! 2) (p ! 3)))"
    unfolding parse_inner_def snd_conv by (rule qba_mid_length_le) simp_all
  ultimately show ?thesis by simp
qed

lemma round_stuck:
  assumes "ready_round S api cw = None" "conn_ok (fst cw)"
  shows "\<exists>t payload. next_message api (fst cw) = Some (t, payload) \<and> bad_message t payload"
proof (cases "next_frame (m_rxBuf (fst cw))")
  case (Item frame rest)
  let ?cw0 = "on_conn (\<lambda>conn. conn\<lparr>m_rxBuf := rest\<rparr>) cw"
  have h: "handle_frame S api frame ?cw0 = None" using assms(1) Item by (simp add: ready_round_def)
  show ?thesis
  proof (cases "link_up (m_state (fst cw))")
    case True
    then have e: "encrypted_frame S api frame ?cw0 = None" using h handle_up [of ?cw0] by (simp add: on_conn_def)
    obtain n where n: "m_noise (fst cw) = Some n"
      using True assms(2) by (auto simp: conn_ok_def)
    obtain n' p where d: "decrypt api frame n = (n', p)" by (cases "decrypt api frame n")
    obtain mtype m where p: "parse_inner p = (mtype, m)" by (cases "parse_inner p")
    have "processMessage S api mtype m (on_conn (\<lambda>conn. conn\<lparr>m_noise := Some n'\<rparr>) ?cw0) = None" "\<not> length p < 4"
      using e n d p by (auto simp: encrypted_frame_def on_conn_def Let_def split: if_splits)
    then show ?thesis
      using message_stuck [of S api mtype m] parse_inner_length [of p] Item n d p by (auto simp: next_message_def)
  next
    case False
    then show ?thesis
      using h assms(2)
      by (cases "m_state (fst cw)")
        (auto simp: handle_frame_def on_conn_def conn_ok_def state_defs Let_def split: if_splits option.splits prod.splits)
  qed
qed (use assms in \<open>simp_all add: ready_round_def\<close>)

subsection \<open>The transition relation\<close>

datatype conn_event =
    Start
  | Stop
  | Connected
  | Closed
  | Error
  | PingTimer
  | ReconnectTimer
  | HandshakeTimer
  | Data bytes
  | Command dref quint8 string variant
  | Outside world

inductive conn_step ::
  "service \<Rightarrow> ('h, 'c) noise_api \<Rightarrow> conn_event \<Rightarrow> ('h, 'c) sys \<Rightarrow> ('h, 'c) sys \<Rightarrow> bool"
  for S api where
  start: "conn_step S api Start cw (connectToDevice cw)"
| stop: "conn_step S api Stop cw (disconnectFromDevice S cw)"
| connected: "\<not> sock_open (fst cw) \<Longrightarrow> conn_step S api Connected cw (onConnected api cw)"
| closed: "conn_step S api Closed cw (onDisconnected S cw)"
| error: "conn_step S api Error cw (onError cw)"
| ping: "m_pingTimer (fst cw) \<Longrightarrow> conn_step S api PingTimer cw (onPingTimer api cw)"
| reconnect: "m_reconnectTimer (fst cw) \<Longrightarrow> conn_step S api ReconnectTimer cw (onReconnectTimer S cw)"
| handshake: "m_handshakeTimer (fst cw) \<Longrightarrow> conn_step S api HandshakeTimer cw (onHandshakeTimer S cw)"
| data: "onReadyRead S api d cw = Some cw' \<Longrightarrow> conn_step S api (Data d) cw cw'"
| command: "conn_step S api (Command r i action v) cw
     (on_conn (sendCommand S api (wdev (snd cw) r) i action v) cw)"
| outside: "conn_step S api (Outside W) cw (on_conn (\<lambda>conn. conn\<lparr>sock_sync := ys\<rparr>) (on_world (\<lambda>_. W) cw))"

inductive_cases connected_stepE: "conn_step S api Connected cw cw'"
inductive_cases start_stepE: "conn_step S api Start cw cw'"
inductive_cases reconnect_stepE: "conn_step S api ReconnectTimer cw cw'"
inductive_cases stop_stepE: "conn_step S api Stop cw cw'"
inductive_cases outside_stepE: "conn_step S api (Outside W) cw cw'"

inductive_simps data_step [simp]: "conn_step S api (Data d) cw cw'"

text \<open>Runs of any labelled transition relation.\<close>

inductive runs :: "('e \<Rightarrow> 's \<Rightarrow> 's \<Rightarrow> bool) \<Rightarrow> 'e list \<Rightarrow> 's \<Rightarrow> 's \<Rightarrow> bool"
  for step where
  idle: "runs step [] s s"
| step: "step e s t \<Longrightarrow> runs step es t u \<Longrightarrow> runs step (e # es) s u"

inductive_simps runs_Nil [simp]: "runs step [] s t"
inductive_simps runs_Cons: "runs step (e # es) s t"

lemma runs_snoc: "runs step (es @ [e]) s u \<longleftrightarrow> (\<exists>t. runs step es s t \<and> step e t u)"
  by (induction es arbitrary: s) (auto simp: runs_Cons)

abbreviation conn_run ::
  "service \<Rightarrow> ('h, 'c) noise_api \<Rightarrow> conn_event list \<Rightarrow> ('h, 'c) sys \<Rightarrow> ('h, 'c) sys \<Rightarrow> bool" where
  "conn_run S api \<equiv> runs (conn_step S api)"

text \<open>Every step but three is \<open>fine\<close>.\<close>

lemma step_fine:
  assumes "conn_step S api e cw cw'" "e \<noteq> Stop" "e \<noteq> Connected" "\<forall>W. e \<noteq> Outside W"
  shows "fine api cw cw'"
  using assms
proof (cases rule: conn_step.cases)
  case error
  then show ?thesis using fine_arm by (simp add: onError_def)
next
  case (data d)
  then show ?thesis using fine_data by blast
next
  case (command r i action v)
  then show ?thesis using fine_sendCommand by (cases cw) (simp add: on_conn_def)
qed (simp_all add: fine_connect fine_onDisconnected fine_ping fine_reconnect_timer fine_handshake_timer)

lemma outside_conn: "conn_step S api (Outside W) cw cw' \<Longrightarrow> \<exists>ys. cw' = ((fst cw)\<lparr>sock_sync := ys\<rparr>, W)"
  by (auto elim!: outside_stepE simp: on_conn_def on_world_def)

lemma step_ok:
  assumes "conn_step S api e cw cw'" "conn_ok (fst cw)"
  shows "conn_ok (fst cw') \<and> m_device (fst cw') = m_device (fst cw)"
proof -
  consider "e = Stop" | "e = Connected" | W where "e = Outside W" | "e \<noteq> Stop" "e \<noteq> Connected" "\<forall>W. e \<noteq> Outside W"
    by blast
  then show ?thesis
  proof cases
    case 1
    with assms show ?thesis using steady_disconnect [of api cw S] by (auto elim: stop_stepE simp: steady_def)
  next
    case 2
    obtain c W c' W' where cw: "cw = (c, W)" "onConnected api (c, W) = (c', W')" by (cases cw, cases "onConnected api cw") auto
    with assms 2 show ?thesis using onConnected_parts [OF cw(2)] by (auto elim!: connected_stepE)
  next
    case 3
    with assms obtain ys where "cw' = ((fst cw)\<lparr>sock_sync := ys\<rparr>, W)" using outside_conn by blast
    with assms(2) show ?thesis by (simp add: conn_ok_def)
  next
    case 4
    with assms show ?thesis using step_fine [OF assms(1)] by (simp add: fine_def steady_def)
  qed
qed

lemma run_ok:
  "conn_run S api es cw cw' \<Longrightarrow> conn_ok (fst cw) \<Longrightarrow> conn_ok (fst cw') \<and> m_device (fst cw') = m_device (fst cw)"
proof (induction rule: runs.induct)
  case (step e cw cw1 es cw2)
  then show ?case using step_ok [OF step.hyps(1)] by simp
qed simp

subsection \<open>What is said, over a run\<close>

lemma step_talks:
  assumes "conn_step S api e cw cw'" "e \<noteq> Connected"
  shows "talks api (fst cw) (fst cw')"
proof -
  consider "e = Stop" | W where "e = Outside W" | "e \<noteq> Stop" "\<forall>W. e \<noteq> Outside W" by blast
  then show ?thesis
  proof cases
    case 1
    with assms show ?thesis using steady_disconnect [of api cw S] by (auto elim: stop_stepE simp: steady_def)
  next
    case 2
    with assms show ?thesis using outside_conn by fastforce
  next
    case 3
    with assms show ?thesis using step_fine [OF assms(1)] by (simp add: fine_def steady_def)
  qed
qed

lemma step_keeps:
  assumes "conn_step S api e cw cw'" "\<forall>W. e \<noteq> Outside W"
  shows "keeps (w_devices (snd cw)) (w_devices (snd cw')) \<and> m_device (fst cw') = m_device (fst cw)"
proof -
  consider "e = Stop" | "e = Connected" | "e \<noteq> Stop" "e \<noteq> Connected" by blast
  then show ?thesis
  proof cases
    case 1
    with assms show ?thesis using steady_disconnect [of api cw S] by (auto elim: stop_stepE simp: steady_def)
  next
    case 2
    obtain c W c' W' where cw: "cw = (c, W)" "onConnected api (c, W) = (c', W')" by (cases cw, cases "onConnected api cw") auto
    with assms 2 show ?thesis using onConnected_parts(1,2) [OF cw(2)] by (auto elim!: connected_stepE)
  next
    case 3
    with assms show ?thesis using step_fine [OF assms(1)] by (simp add: fine_def steady_def)
  qed
qed

text \<open>The connection's device has the key, before and after each event.\<close>

definition has_key :: "dref \<Rightarrow> bytes \<Rightarrow> world \<Rightarrow> bool" where
  "has_key r key W = (r < length (objs (w_devices W)) \<and> d_encryptionKey (wdev W r) = key)"

fun keyed :: "dref \<Rightarrow> bytes \<Rightarrow> conn_event \<Rightarrow> bool" where
  "keyed r key (Outside W) = has_key r key W"
| "keyed r key e = True"

lemma step_key:
  assumes "conn_step S api e cw cw'" "keyed (m_device (fst cw)) key e" "has_key (m_device (fst cw)) key (snd cw)"
  shows "has_key (m_device (fst cw')) key (snd cw') \<and> m_device (fst cw') = m_device (fst cw)"
proof (cases "\<exists>W. e = Outside W")
  case True
  with assms show ?thesis using outside_conn by fastforce
next
  case False
  with step_keeps [OF assms(1)] assms(3) show ?thesis
    by (auto simp: has_key_def keeps_def same_identity_def wdev_def)
qed

lemma step_speaks:
  assumes "conn_step S api e cw cw'" "has_key (m_device (fst cw)) key (snd cw)" "fits api key (m_noise (fst cw)) s"
  shows "\<exists>xs t. m_socket (fst cw') = m_socket (fst cw) @ xs \<and> speaks api key xs s t \<and> fits api key (m_noise (fst cw')) t"
proof (cases "e = Connected")
  case True
  obtain c W c' W' where cw: "cw = (c, W)" "onConnected api (c, W) = (c', W')" by (cases cw, cases "onConnected api cw") auto
  have "cw' = (c', W')" using assms(1) True cw by (auto elim: connected_stepE)
  then show ?thesis
    using onConnected_says [OF cw(2)] assms(2) cw(1) speaks.hello [OF speaks.hush] by (auto simp: has_key_def)
next
  case False
  from step_talks [OF assms(1) False] assms(3) show ?thesis by (auto simp: talks_def)
qed

lemma run_speaks:
  "conn_run S api es cw cw' \<Longrightarrow> has_key (m_device (fst cw)) key (snd cw) \<Longrightarrow> list_all (keyed (m_device (fst cw)) key) es \<Longrightarrow>
     fits api key (m_noise (fst cw)) s \<Longrightarrow>
     \<exists>xs t. m_socket (fst cw') = m_socket (fst cw) @ xs \<and> speaks api key xs s t"
proof (induction arbitrary: s rule: runs.induct)
  case (idle cw)
  then show ?case using speaks.hush by auto
next
  case (step e cw cw1 es cw2)
  obtain xs t where 1: "m_socket (fst cw1) = m_socket (fst cw) @ xs" "speaks api key xs s t" "fits api key (m_noise (fst cw1)) t"
    using step_speaks [OF step.hyps(1) step.prems(1,3)] by blast
  have k: "has_key (m_device (fst cw1)) key (snd cw1)" "m_device (fst cw1) = m_device (fst cw)"
    using step_key [OF step.hyps(1) _ step.prems(1)] step.prems(2) by auto
  obtain ys u where "m_socket (fst cw2) = m_socket (fst cw1) @ ys" "speaks api key ys t u"
    using step.IH [OF k(1) _ 1(3)] step.prems(2) k(2) by auto
  with 1 show ?case using speaks_append by fastforce
qed

lemma link_fits:
  "runs (\<lambda>e cw cw'. conn_step S api e cw cw' \<and> e \<noteq> Connected \<and> P cw') es cw cw' \<Longrightarrow>
     fits api key (m_noise (fst cw)) s \<Longrightarrow> \<exists>t. fits api key (m_noise (fst cw')) t"
proof (induction arbitrary: s rule: runs.induct)
  case (step e cw cw1 es cw2)
  then have "talks api (fst cw) (fst cw1)" using step_talks [of S api e cw cw1] by simp
  with step.prems obtain t where "fits api key (m_noise (fst cw1)) t" unfolding talks_def by blast
  then show ?case by (rule step.IH)
qed blast

subsection \<open>The socket and the buffer, over a run\<close>

text \<open>Bytes arrive on an open socket only; \<open>link_run\<close> is a run in which they do.\<close>

fun attached :: "conn_event \<Rightarrow> ('h, 'c) sys \<Rightarrow> bool" where
  "attached (Data d) cw = sock_open (fst cw)"
| "attached e cw = True"

abbreviation link_run ::
  "service \<Rightarrow> ('h, 'c) noise_api \<Rightarrow> conn_event list \<Rightarrow> ('h, 'c) sys \<Rightarrow> ('h, 'c) sys \<Rightarrow> bool" where
  "link_run S api \<equiv> runs (\<lambda>e cw cw'. attached e cw \<and> conn_step S api e cw cw')"

lemma link_conn: "link_run S api es cw cw' \<Longrightarrow> conn_run S api es cw cw'"
  by (induction rule: runs.induct) (auto intro: runs.intros)

text \<open>On a closed socket there is neither a Noise object nor anything in the buffer.\<close>

definition buffer_ok :: "('h, 'c) EspHomeDevice \<Rightarrow> bool" where
  "buffer_ok conn = ((m_noise conn = None) = (\<not> sock_open conn) \<and> (\<not> sock_open conn \<longrightarrow> m_rxBuf conn = []))"

lemma tidy_ok: "tidy c d \<Longrightarrow> buffer_ok c \<Longrightarrow> buffer_ok d"
  by (auto simp: tidy_def buffer_ok_def)

text \<open>A round on an open socket.\<close>

lemma round_ok:
  assumes "ready_round S api cw = Some (goon, cw')" "buffer_ok (fst cw)"
  shows "buffer_ok (fst cw')"
proof (cases "next_frame (m_rxBuf (fst cw))")
  case (Item payload rest)
  let ?cw0 = "on_conn (\<lambda>conn. conn\<lparr>m_rxBuf := rest\<rparr>) cw"
  have "m_rxBuf (fst cw) \<noteq> []" using Item by (auto simp: next_frame_def)
  then have "buffer_ok (fst ?cw0)" using assms(2) by (auto simp: buffer_ok_def on_conn_def)
  then show ?thesis
    using assms(1) Item tidy_ok [OF tidy_frame [of S api payload ?cw0 goon cw']] by (simp add: ready_round_def)
qed (use assms tidy_ok [OF tidy_sock_down, of cw S DisconnectFromHost] in \<open>auto simp: ready_round_def\<close>)

lemma rounds_ok: "rounds S api cw cw' \<Longrightarrow> buffer_ok (fst cw) \<Longrightarrow> buffer_ok (fst cw')"
  by (induction rule: rounds.induct) (auto intro: round_ok)

lemma data_ok:
  assumes "onReadyRead S api d cw = Some cw'" "buffer_ok (fst cw)" "sock_open (fst cw)"
  shows "buffer_ok (fst cw')"
proof -
  let ?cw0 = "on_conn (\<lambda>conn. conn\<lparr>m_rxBuf := m_rxBuf conn @ d\<rparr>) cw"
  have "buffer_ok (fst ?cw0)" using assms(2,3) by (simp add: buffer_ok_def on_conn_def)
  moreover obtain cw1 where "rounds S api ?cw0 cw1" "cw' = cw1 \<or> ready_round S api cw1 = Some (False, cw')"
    using loop_rounds [of S api ?cw0 cw'] assms(1) by (auto simp: onReadyRead_def)
  ultimately show ?thesis using rounds_ok round_ok by blast
qed

lemma down_ok: "buffer_ok c \<Longrightarrow> buffer_ok (fst (sock_down S x (c, W)))"
  using tidy_ok [OF tidy_sock_down, of "(c, W)"] by simp

lemma step_buffer:
  assumes "conn_step S api e cw cw'" "attached e cw" "buffer_ok (fst cw)"
  shows "buffer_ok (fst cw')"
proof -
  obtain c W where cw: "cw = (c, W)" by (cases cw)
  have b: "buffer_ok c" using assms(3) cw by simp
  show ?thesis
    using assms(1)
  proof (cases rule: conn_step.cases)
    case start
    then show ?thesis using b by (simp add: cw connectToDevice_def on_conn_def sock_def buffer_ok_def)
  next
    case stop
    show ?thesis
      unfolding stop cw disconnectFromDevice_def on_conn_def fst_conv snd_conv
      by (rule down_ok) (use b in \<open>simp add: buffer_ok_def\<close>)
  next
    case connected
    then show ?thesis by (simp add: cw onConnected_def on_conn_def sendRaw_def sock_def buffer_ok_def Let_def split: prod.split)
  next
    case closed
    then show ?thesis by (simp add: buffer_ok_def)
  next
    case ping
    then show ?thesis using b tidy_ok [OF tidy_send b] by (simp add: cw onPingTimer_def on_conn_def)
  next
    case reconnect
    have "buffer_ok (fst (sock_down S Abort (c\<lparr>m_reconnectTimer := False\<rparr>, W)))"
      by (rule down_ok) (use b in \<open>simp add: buffer_ok_def\<close>)
    then show ?thesis
      by (simp add: reconnect cw onReconnectTimer_def connectToDevice_def on_conn_def sock_def buffer_ok_def Let_def)
  next
    case handshake
    show ?thesis
      unfolding handshake cw onHandshakeTimer_def on_conn_def fst_conv snd_conv
      by (rule down_ok) (use b in \<open>simp add: buffer_ok_def\<close>)
  next
    case (data d)
    then show ?thesis using data_ok assms(2,3) by simp
  next
    case (command r i action v)
    then show ?thesis using b tidy_ok [OF tidy_send b] by (simp add: cw sendCommand_def on_conn_def split: option.split)
  qed (use b in \<open>simp_all add: cw onError_def arm_reconnect_def on_conn_def on_world_def buffer_ok_def\<close>)
qed

lemma link_buffer: "link_run S api es cw cw' \<Longrightarrow> buffer_ok (fst cw) \<Longrightarrow> buffer_ok (fst cw')"
  by (induction rule: runs.induct) (auto intro: step_buffer)

subsection \<open>The abstract life cycle\<close>

datatype phase = Idle | Dialing | Handshaking | Up

fun phase_of :: "conn_state \<Rightarrow> phase" where
  "phase_of Disconnected = Idle"
| "phase_of Connecting = Dialing"
| "phase_of ClientHello = Handshaking"
| "phase_of ServerHello = Handshaking"
| "phase_of NoiseHandshake = Handshaking"
| "phase_of Ready = Up"
| "phase_of ListEntities = Up"
| "phase_of Subscribe = Up"

fun allowed :: "conn_event \<Rightarrow> phase \<Rightarrow> phase \<Rightarrow> bool" where
  "allowed Start p q = (q = (if p = Idle then Dialing else p))"
| "allowed Stop p q = (q = Idle)"
| "allowed Connected p q = (q = Handshaking)"
| "allowed Closed p q = (q = Idle)"
| "allowed ReconnectTimer p q = (q = Idle \<or> q = Dialing)"
| "allowed HandshakeTimer p q = (q = p \<or> q = Idle)"
| "allowed (Data d) p q = (q = p \<or> q = Idle \<or> (p = Handshaking \<and> q = Up))"
| "allowed e p q = (q = p)"

definition on_link :: "phase \<Rightarrow> bool" where
  "on_link p = (p = Handshaking \<or> p = Up)"

locale lifecycle =
  fixes step :: "conn_event \<Rightarrow> 's \<Rightarrow> 's \<Rightarrow> bool" and phase :: "'s \<Rightarrow> phase"
  assumes allowed_step: "step e s t \<Longrightarrow> allowed e (phase s) (phase t)"
begin

lemma onto_link: "allowed e p q \<Longrightarrow> on_link q \<Longrightarrow> \<not> on_link p \<Longrightarrow> e = Connected"
  by (cases e) (auto simp: on_link_def split: if_splits)

text \<open>A link that is there began with \<open>Connected\<close>, and has been there in every state since.\<close>

lemma link_began:
  "runs step es s t \<Longrightarrow> \<not> on_link (phase s) \<Longrightarrow> on_link (phase t) \<Longrightarrow>
     \<exists>es1 es2 u v. es = es1 @ Connected # es2 \<and> runs step es1 s u \<and> step Connected u v \<and>
       runs (\<lambda>e x y. step e x y \<and> e \<noteq> Connected \<and> on_link (phase y)) es2 v t"
proof (induction es arbitrary: t rule: rev_induct)
  case (snoc e es)
  then obtain w where w: "runs step es s w" "step e w t" by (auto simp: runs_snoc)
  show ?case
  proof (cases "e = Connected")
    case True
    then show ?thesis using w by (intro exI [of _ es] exI [of _ "[]"] exI [of _ w] exI [of _ t]) (simp add: runs.idle)
  next
    case False
    have "on_link (phase w)" using onto_link [OF allowed_step [OF w(2)] snoc.prems(3)] False by blast
    from snoc.IH [OF w(1) snoc.prems(2) this] obtain es1 es2 u v where b: "es = es1 @ Connected # es2"
      "runs step es1 s u" "step Connected u v" "runs (\<lambda>e x y. step e x y \<and> e \<noteq> Connected \<and> on_link (phase y)) es2 v w"
      by blast
    show ?thesis
      by (rule exI [of _ es1], rule exI [of _ "es2 @ [e]"], rule exI [of _ u], rule exI [of _ v])
        (use b w(2) False snoc.prems(3) in \<open>auto simp: runs_snoc\<close>)
  qed
qed simp

end

subsection \<open>The connection implements it\<close>

abbreviation cphase :: "('h, 'c) sys \<Rightarrow> phase" where
  "cphase cw \<equiv> phase_of (m_state (fst cw))"

definition data_moves :: "phase \<Rightarrow> phase \<Rightarrow> bool" where
  "data_moves p q = (q = p \<or> q = Idle \<or> (p = Handshaking \<and> q = Up))"

lemma data_moves_trans: "data_moves p q \<Longrightarrow> data_moves q r \<Longrightarrow> data_moves p r"
  by (auto simp: data_moves_def)

lemma up_phase: "link_up s \<longleftrightarrow> phase_of s = Up"
  by (cases s) (simp_all add: link_up_def)

lemma state_sock_down: "m_state (fst (sock_down S x cw)) = Disconnected \<or> m_state (fst (sock_down S x cw)) = m_state (fst cw)"
  by (auto simp: sock_down_def Let_def on_conn_def sock_def)

lemma phase_sock_down:
  "m_state (fst cw') = m_state (fst cw) \<Longrightarrow> data_moves (cphase cw) (cphase (sock_down S x cw'))"
  using state_sock_down [of S x cw'] by (auto simp: data_moves_def)

lemma phase_message:
  assumes "processMessage S api mtype payload cw = Some cw'" "link_up (m_state (fst cw))"
  shows "data_moves (cphase cw) (cphase cw')"
proof (cases "msg_of mtype")
  case (Some t)
  have 1: "phase_of (m_state (fst cw')) = Up" if di: "processDeviceInfo S api payload cw = Some cw'"
    using di by (auto simp: processDeviceInfo_def Option.bind_eq_Some_conv on_conn_def)
  have 2: "m_state c' = m_state c" if "processEntityInfo E t payload c = Some c'" for E and c c' :: "('a, 'b) EspHomeDevice"
    using that by (auto simp: processEntityInfo_def Let_def split: if_splits)
  have 3: "data_moves (cphase cw) (cphase (sock_down S DisconnectFromHost (on_conn (sendMessage api DisconnectResponse []) cw)))"
    by (rule phase_sock_down) (simp add: on_conn_def)
  show ?thesis
    using assms Some 1 2 3
    by (auto simp: processMessage_def on_conn_def on_world_def Let_def up_phase data_moves_def split: if_splits)
qed (use assms in \<open>simp add: processMessage_def data_moves_def\<close>)
lemma phase_encrypted:
  assumes "encrypted_frame S api payload cw = Some (goon, cw')" "link_up (m_state (fst cw))"
  shows "data_moves (cphase cw) (cphase cw')"
proof (cases "\<exists>n. m_noise (fst cw) = Some n \<and> m_complete n")
  case False
  with assms show ?thesis by (auto simp: encrypted_frame_def data_moves_def split: option.splits)
next
  case True
  then obtain n n' p where n: "m_noise (fst cw) = Some n" "m_complete n" and d: "decrypt api payload n = (n', p)"
    by (cases "decrypt api payload (the (m_noise (fst cw)))") auto
  let ?cw1 = "on_conn (\<lambda>conn. conn\<lparr>m_noise := Some n'\<rparr>) cw"
  have "cw' = sock_down S DisconnectFromHost ?cw1 \<or> cw' = ?cw1 \<or>
      (\<exists>mtype data. processMessage S api mtype data ?cw1 = Some cw')"
    using assms(1) n d by (auto simp: encrypted_frame_def Let_def split: if_splits prod.splits)
  moreover have s: "m_state (fst ?cw1) = m_state (fst cw)" by (simp add: on_conn_def)
  ultimately show ?thesis
    using phase_message [of S api _ _ ?cw1 cw'] phase_sock_down [OF s, of S DisconnectFromHost] assms(2)
    by (auto simp: data_moves_def)
qed

lemma phase_frame:
  assumes "handle_frame S api payload cw = Some (goon, cw')"
  shows "data_moves (cphase cw) (cphase cw')"
proof (cases "link_up (m_state (fst cw))")
  case True
  with assms show ?thesis using phase_encrypted by (simp add: handle_up)
next
  case False
  have 1: "data_moves (cphase cw) (cphase (sock_down S DisconnectFromHost (on_conn (\<lambda>conn. conn\<lparr>m_noise := x\<rparr>) cw)))" for x
    by (rule phase_sock_down) (simp add: on_conn_def)
  have 2: "data_moves (cphase cw) (cphase (sock_down S DisconnectFromHost cw))"
    by (rule phase_sock_down) simp
  show ?thesis
    using assms False 1 2
    by (cases "m_state (fst cw)")
      (auto simp: handle_frame_def link_up_def data_moves_def Let_def on_conn_def on_world_def
        split: if_splits option.splits prod.splits)
qed

lemma phase_round:
  assumes "ready_round S api cw = Some (goon, cw')"
  shows "data_moves (cphase cw) (cphase cw')"
proof (cases "next_frame (m_rxBuf (fst cw))")
  case (Item payload rest)
  then show ?thesis
    using assms phase_frame [of S api payload "on_conn (\<lambda>conn. conn\<lparr>m_rxBuf := rest\<rparr>) cw" goon cw']
    by (simp add: ready_round_def on_conn_def)
qed (use assms phase_sock_down [of cw cw S DisconnectFromHost] in \<open>auto simp: ready_round_def data_moves_def\<close>)

lemma phase_rounds: "rounds S api cw cw' \<Longrightarrow> data_moves (cphase cw) (cphase cw')"
proof (induction rule: rounds.induct)
  case (more cw cw1 cw2)
  then show ?case using phase_round data_moves_trans by blast
qed (simp add: data_moves_def)

lemma phase_data:
  assumes "onReadyRead S api d cw = Some cw'"
  shows "data_moves (cphase cw) (cphase cw')"
proof -
  let ?cw0 = "on_conn (\<lambda>conn. conn\<lparr>m_rxBuf := m_rxBuf conn @ d\<rparr>) cw"
  obtain cw1 where "rounds S api ?cw0 cw1" "cw' = cw1 \<or> ready_round S api cw1 = Some (False, cw')"
    using loop_rounds [of S api ?cw0 cw'] assms by (auto simp: onReadyRead_def)
  then have "data_moves (cphase ?cw0) (cphase cw')"
    using phase_rounds phase_round data_moves_trans by blast
  then show ?thesis by (simp add: on_conn_def)
qed

lemma step_allowed:
  assumes "conn_step S api e cw cw'"
  shows "allowed e (cphase cw) (cphase cw')"
  using assms
proof (cases rule: conn_step.cases)
  case start
  then show ?thesis by (cases "m_state (fst cw)") (simp_all add: connectToDevice_def on_conn_def sock_def)
next
  case stop
  show ?thesis
    using state_sock_down [of S DisconnectFromHost "on_conn (\<lambda>conn. conn\<lparr>m_pingTimer := False, m_reconnectTimer := False,
       m_handshakeTimer := False, m_state := Disconnected\<rparr>) cw"]
    by (auto simp: stop disconnectFromDevice_def on_conn_def)
next
  case connected
  obtain c W c' W' where "cw = (c, W)" "onConnected api (c, W) = (c', W')" by (cases cw, cases "onConnected api cw") auto
  with connected onConnected_parts(3) show ?thesis by fastforce
next
  case reconnect
  then show ?thesis
    by (auto simp: onReconnectTimer_def connectToDevice_def on_conn_def sock_def Let_def)
next
  case handshake
  then show ?thesis
    using state_sock_down [of S Abort "on_conn (\<lambda>conn. conn\<lparr>m_handshakeTimer := False\<rparr>) cw"]
    by (auto simp: onHandshakeTimer_def on_conn_def)
next
  case (data d)
  then show ?thesis using phase_data by (fastforce simp: data_moves_def)
next
  case (command r i action v)
  then show ?thesis
    by (auto simp: on_conn_def sendCommand_def split: option.splits)
qed (auto simp: onError_def arm_reconnect_def onPingTimer_def on_conn_def on_world_def)

interpretation esphome: lifecycle "conn_step S api" cphase
  by unfold_locales (rule step_allowed)

text \<open>What is in the buffer when a dial begins, and that a dial is one.\<close>

lemma connect_clears: "m_state (fst cw) = Disconnected \<Longrightarrow> m_rxBuf (fst (connectToDevice cw)) = []"
  by (simp add: connectToDevice_def on_conn_def sock_def)

lemma dial_clears:
  assumes "conn_step S api e cw cw'" "m_state (fst cw) \<noteq> Connecting" "m_state (fst cw') = Connecting"
  shows "m_rxBuf (fst cw') = []"
proof -
  have d: "cphase cw \<noteq> Dialing" "cphase cw' = Dialing" using assms(2,3) by (cases "m_state (fst cw)", simp_all)
  then have "e = Start \<or> e = ReconnectTimer" using step_allowed [OF assms(1)] by (cases e) (auto split: if_splits)
  then show ?thesis
    using assms d
    by (auto elim!: start_stepE reconnect_stepE simp: connect_clears onReconnectTimer_def on_conn_def Let_def
        connectToDevice_def sock_def split: if_splits)
qed

definition dialled :: "('h, 'c) EspHomeDevice \<Rightarrow> bool" where
  "dialled conn = (m_socket conn \<noteq> [] \<and> (case last (m_socket conn) of ConnectToHost h p \<Rightarrow> True | _ \<Rightarrow> False))"

lemma step_dialled:
  assumes "conn_step S api e cw cw'" "attached e cw" "conn_ok (fst cw)" "parked (fst cw)"
    and d: "m_state (fst cw) = Connecting \<Longrightarrow> dialled (fst cw)" and c: "m_state (fst cw') = Connecting"
  shows "dialled (fst cw')"
proof -
  have a: "allowed e (cphase cw) Dialing" using step_allowed [OF assms(1)] c by simp
  have s: "m_state (fst cw) = Connecting" if "cphase cw = Dialing" using that by (cases "m_state (fst cw)") simp_all
  show ?thesis
    using assms(1)
  proof (cases rule: conn_step.cases)
    case start
    then show ?thesis using d c by (auto simp: connectToDevice_def on_conn_def sock_def dialled_def split: if_splits)
  next
    case ping
    then show ?thesis using a s assms(3) by (auto simp: conn_defs)
  next
    case reconnect
    then show ?thesis using c by (auto simp: onReconnectTimer_def connectToDevice_def on_conn_def sock_def dialled_def Let_def split: if_splits)
  next
    case handshake
    then show ?thesis using a s assms(3) by (auto simp: conn_defs)
  next
    case data
    then show ?thesis using a s assms(2,4) by (auto simp: parked_def)
  next
    case command
    then show ?thesis using a s d by (simp add: on_conn_def sendCommand_def)
  qed (use a s d in \<open>auto simp: onError_def arm_reconnect_def on_conn_def on_world_def dialled_def\<close>)
qed

subsection \<open>Properties\<close>

lemma new_ok [simp]: "conn_ok (EspHomeDevice_new r)" "m_device (EspHomeDevice_new r) = r" "buffer_ok (EspHomeDevice_new r)"
  by (simp_all add: EspHomeDevice_new_def conn_defs buffer_ok_def)

text \<open>A run used in witnesses: dial, connect, receive the server hello and the handshake answer.\<close>

definition example_events :: "conn_event list" where
  "example_events = [Start, Connected, Data (frame_of [0x01] @ frame_of [0x00, 0x07])]"

lemma example_run:
  "\<exists>cw. link_run example_service toy_api example_events (EspHomeDevice_new 0, example_world) cw \<and> m_state (fst cw) = Ready"
proof -
  let ?S = example_service and ?a = toy_api
  let ?cw0 = "(EspHomeDevice_new 0, example_world) :: (nat, byte) sys"
  let ?cw1 = "connectToDevice ?cw0"
  let ?cw2 = "onConnected ?a ?cw1"
  obtain c W where 2: "?cw2 = (c, W)" by (cases ?cw2)
  have c: "m_state c = ServerHello" "m_rxBuf c = []" "sock_open c"
      "m_noise c = Some \<lparr>m_handshake = Some 2, m_sendCipher = None, m_recvCipher = None, m_complete = False\<rparr>"
    using 2 by (auto simp: onConnected_def connectToDevice_def EspHomeDevice_new_def on_conn_def sock_def sendRaw_def
        writeHandshake_def noise_new_def toy_api_def Let_def)
  let ?r = "frame_of [0x00, 0x07]"
  let ?cw3 = "(c\<lparr>m_rxBuf := frame_of [0x01] @ ?r\<rparr>, W)"
  let ?c4 = "c\<lparr>m_rxBuf := ?r, m_state := NoiseHandshake\<rparr>"
  have n: "next_frame (frame_of [0x01] @ ?r) = Item [0x01] ?r" "next_frame ?r = Item [0x00, 0x07] []"
    using next_frame_frame_of [of "[0x01]" ?r] next_frame_frame_of [of "[0x00, 0x07]" "[]"] by simp_all
  obtain W4 where r3: "ready_round ?S ?a ?cw3 = Some (True, ?c4, W4)"
    using n c adopt_state [of ?S "[0x01]" "(c\<lparr>m_rxBuf := ?r\<rparr>, W)"]
    by (cases "adopt_name ?S [0x01] (c\<lparr>m_rxBuf := ?r\<rparr>, W)")
      (simp add: ready_round_def on_conn_def handle_frame_def)
  obtain c5 W5 where r4: "ready_round ?S ?a (?c4, W4) = Some (True, c5, W5)" and c5: "m_state c5 = Ready" "m_rxBuf c5 = []"
    using n c by (simp add: ready_round_def on_conn_def on_world_def handle_frame_def qba_mid_def readHandshake_def toy_api_def Let_def)
  have ne: "frame_of [0x01] @ ?r \<noteq> []" "?r \<noteq> []" by (simp_all add: frame_of_def)
  have "onReadyRead ?S ?a (frame_of [0x01] @ ?r) ?cw2 = Some (c5, W5)"
    using c(2) ne r3 r4 c5 2 by (simp add: onReadyRead_def on_conn_def ready_loop.simps)
  moreover have "conn_step ?S ?a Start ?cw0 ?cw1" by (rule conn_step.start)
  moreover have "\<not> sock_open (fst ?cw1)"
    by (simp add: connectToDevice_def on_conn_def sock_def EspHomeDevice_new_def)
  then have "conn_step ?S ?a Connected ?cw1 ?cw2" by (rule conn_step.connected)
  ultimately have "link_run ?S ?a example_events ?cw0 (c5, W5)"
    unfolding example_events_def using c(3) 2
    by (intro runs.step [of _ _ _ ?cw1] runs.step [of _ _ _ ?cw2] runs.step [of _ _ _ "(c5, W5)"] runs.idle) simp_all
  then show ?thesis using c5(1) by auto
qed

text \<open>
  C3: The connection's invariant. Whatever happens to a connection from its construction on - public
  calls, socket signals, timers, bytes received while the socket is open, commands, changes elsewhere in
  the service - the ping timer runs exactly after the handshake and the handshake timer exactly during
  it, both only on an open socket with a Noise object whose handshake is complete exactly in the former
  case; there is a Noise object exactly while the socket is open, and nothing is left in the receive
  buffer of a closed socket, nor by a step that dials; the connection never changes the device it is for.
\<close>

theorem connection_invariant:
  assumes "link_run S api es (EspHomeDevice_new r, W) cw"
  shows "conn_ok (fst cw) \<and> m_device (fst cw) = r \<and> buffer_ok (fst cw) \<and>
    (\<forall>e cw'. conn_step S api e cw cw' \<and> m_state (fst cw) \<noteq> Connecting \<and> m_state (fst cw') = Connecting \<longrightarrow>
       m_rxBuf (fst cw') = [])"
  using run_ok [OF link_conn [OF assms]] link_buffer [OF assms] by (auto dest: dial_clears)

lemma connection_invariant_witness:
  "\<exists>cw. link_run example_service toy_api example_events (EspHomeDevice_new 0, example_world) cw \<and>
     conn_ok (fst cw) \<and> buffer_ok (fst cw) \<and> m_pingTimer (fst cw)"
proof -
  obtain cw where r: "link_run example_service toy_api example_events (EspHomeDevice_new 0, example_world) cw"
    and s: "m_state (fst cw) = Ready"
    using example_run by blast
  have "conn_ok (fst cw) \<and> buffer_ok (fst cw)" using connection_invariant [OF r] by simp
  moreover from this have "m_pingTimer (fst cw)" using s by (simp add: conn_defs)
  ultimately show ?thesis using r by blast
qed

text \<open>
  C11: The life cycle is refined. With the eight states of the code seen as four phases, every step moves as
  the abstract machine allows: only a start or the reconnect timer dials, only the socket's connected
  signal begins a handshake, only received data can complete one, and no event but these changes the
  phase except back to idle.
\<close>

theorem step_refines_lifecycle:
  assumes "conn_step S api e cw cw'"
  shows "allowed e (phase_of (m_state (fst cw))) (phase_of (m_state (fst cw')))"
  using assms by (rule step_allowed)

lemma step_refines_lifecycle_witness:
  "allowed Start (phase_of Disconnected)
     (phase_of (m_state (fst (connectToDevice (EspHomeDevice_new 0 :: (nat, byte) EspHomeDevice, example_world)))))"
  using step_refines_lifecycle [OF conn_step.start [of example_service toy_api "(EspHomeDevice_new 0, example_world)"]]
  by (simp add: EspHomeDevice_new_def)

text \<open>
  C33: Nothing is up without a handshake. If a run ends in one of the states in which messages are
  exchanged, there was a last \<^verbatim>\<open>connected\<close> signal; in every state since, the link was in its handshake or
  up, never closed or dialed anew; and the connection's Noise object is the one constructed at that
  signal with the key the device had then, with a completed handshake.
\<close>

theorem up_needs_handshake:
  assumes "conn_run S api es (EspHomeDevice_new r, W) cw" "link_up (m_state (fst cw))"
  shows "\<exists>es1 es2 cw1 cw2 n. es = es1 @ Connected # es2 \<and> conn_run S api es1 (EspHomeDevice_new r, W) cw1 \<and>
     conn_step S api Connected cw1 cw2 \<and>
     runs (\<lambda>e s t. conn_step S api e s t \<and> e \<noteq> Connected \<and> on_link (cphase t)) es2 cw2 cw \<and>
     m_noise (fst cw) = Some n \<and> m_complete n \<and> noise_of api (d_encryptionKey (main_dev cw1)) n"
proof -
  have "\<not> on_link (cphase (EspHomeDevice_new r, W))" "on_link (cphase cw)"
    using assms(2) by (simp_all add: on_link_def up_phase EspHomeDevice_new_def)
  from esphome.link_began [OF assms(1) this] obtain es1 es2 cw1 cw2 where b: "es = es1 @ Connected # es2"
    "conn_run S api es1 (EspHomeDevice_new r, W) cw1" "conn_step S api Connected cw1 cw2"
    "runs (\<lambda>e s t. conn_step S api e s t \<and> e \<noteq> Connected \<and> on_link (cphase t)) es2 cw2 cw" by blast
  let ?key = "d_encryptionKey (main_dev cw1)"
  obtain c W1 c' W' where c: "cw1 = (c, W1)" "onConnected api (c, W1) = (c', W')" by (cases cw1, cases "onConnected api cw1") auto
  then have "fits api ?key (m_noise (fst cw2)) Greeted"
    using b(3) onConnected_says(2) [OF c(2)] by (auto elim!: connected_stepE)
  from link_fits [OF b(4) this] obtain t where t: "fits api ?key (m_noise (fst cw)) t" by blast
  have "conn_ok (fst cw)" using run_ok [OF assms(1)] by simp
  then obtain n where n: "m_noise (fst cw) = Some n" "m_complete n" using assms(2) by (auto simp: conn_ok_def)
  moreover have "noise_of api ?key n" using t n(1) by (simp add: fits_def)
  ultimately show ?thesis using b by blast
qed

lemma up_needs_handshake_witness:
  "\<exists>es1 es2 n. example_events = es1 @ Connected # es2 \<and> m_complete n \<and>
     noise_of toy_api (d_encryptionKey (wdev example_world 0)) n"
proof -
  obtain cw where l: "link_run example_service toy_api example_events (EspHomeDevice_new 0, example_world) cw"
    and s: "m_state (fst cw) = Ready"
    using example_run by blast
  obtain es1 es2 n and cw1 :: "(nat, byte) sys" where u: "example_events = es1 @ Connected # es2"
      "conn_run example_service toy_api es1 (EspHomeDevice_new 0, example_world) cw1" "m_complete n"
      "noise_of toy_api (d_encryptionKey (main_dev cw1)) n"
    using up_needs_handshake [OF link_conn [OF l]] s by (auto simp: link_up_def)
  have "es1 = [Start]" using u(1) by (auto simp: example_events_def Cons_eq_append_conv)
  then have "cw1 = connectToDevice (EspHomeDevice_new 0, example_world)"
    using u(2) by (auto simp: runs_Cons elim: start_stepE)
  then have "main_dev cw1 = wdev example_world 0" by (simp add: connectToDevice_def on_conn_def sock_def EspHomeDevice_new_def)
  with u show ?thesis by auto
qed

text \<open>
  C12: Nothing is said in the clear. As long as the device's key is not changed, everything a connection
  ever writes is, in order: the greeting with the first handshake message under that key; then frames
  that each hold one API message, the first sealed by the send cipher a successful handshake with that
  key leaves, each further one by the cipher as the message before left it; or again a greeting. And
  while there is no completed handshake, \<^verbatim>\<open>sendMessage\<close> does nothing.
\<close>

theorem only_sealed_writes:
  assumes "conn_run S api es (EspHomeDevice_new r, W) cw" "list_all (keyed r key) (Outside W # es)"
  shows "(\<exists>s. speaks api key (m_socket (fst cw)) Silent s) \<and>
    ((\<exists>n. m_noise conn = Some n \<and> m_complete n) \<or> sendMessage api t p conn = conn)"
proof
  have "\<exists>xs s. m_socket (fst cw) = m_socket (EspHomeDevice_new r :: ('a, 'b) EspHomeDevice) @ xs \<and> speaks api key xs Silent s"
    using run_speaks [OF assms(1), of key Silent] assms(2) by (simp add: EspHomeDevice_new_def)
  then show "\<exists>s. speaks api key (m_socket (fst cw)) Silent s" by (simp add: EspHomeDevice_new_def)
  show "(\<exists>n. m_noise conn = Some n \<and> m_complete n) \<or> sendMessage api t p conn = conn"
    by (auto simp: sendMessage_def split: option.splits)
qed

lemma only_sealed_writes_witness:
  "\<exists>cw s. conn_run example_service toy_api example_events (EspHomeDevice_new 0, example_world) cw \<and> m_state (fst cw) = Ready \<and>
     speaks toy_api (d_encryptionKey (wdev example_world 0)) (m_socket (fst cw)) Silent s"
proof -
  obtain cw where l: "link_run example_service toy_api example_events (EspHomeDevice_new 0, example_world) cw"
    and s: "m_state (fst cw) = Ready"
    using example_run by blast
  let ?key = "d_encryptionKey (wdev example_world 0)"
  have "list_all (keyed 0 ?key) (Outside example_world # example_events)"
    by (simp add: example_events_def has_key_def example_world_def alloc_dev_def append_dev_def DeviceList_new_def)
  from only_sealed_writes [OF link_conn [OF l] this] s link_conn [OF l] show ?thesis by blast
qed

text \<open>Events that neither stop the connection nor deactivate its device.\<close>

fun undisturbed :: "dref \<Rightarrow> conn_event \<Rightarrow> bool" where
  "undisturbed r Stop = False"
| "undisturbed r (Outside W) = (r < length (objs (w_devices W)) \<and> d_active (wdev W r))"
| "undisturbed r e = True"

definition waits :: "('h, 'c) EspHomeDevice \<Rightarrow> bool" where
  "waits conn =
     (case m_state conn of
        Disconnected \<Rightarrow> m_reconnectTimer conn \<and> \<not> sock_open conn
      | Connecting \<Rightarrow> \<not> sock_open conn \<and> dialled conn
      | ClientHello \<Rightarrow> False
      | ServerHello \<Rightarrow> m_handshakeTimer conn
      | NoiseHandshake \<Rightarrow> m_handshakeTimer conn
      | _ \<Rightarrow> m_pingTimer conn \<and> sock_open conn)"

lemma live_waits: "conn_ok (fst cw) \<Longrightarrow> live cw \<Longrightarrow> (m_state (fst cw) = Connecting \<longrightarrow> dialled (fst cw)) \<Longrightarrow> waits (fst cw)"
  by (cases "m_state (fst cw)") (auto simp: waits_def live_def parked_def conn_defs)

lemma step_live:
  assumes "conn_step S api e cw cw'" "live cw" "undisturbed (m_device (fst cw)) e"
  shows "live cw' \<and> m_device (fst cw') = m_device (fst cw)"
proof -
  consider "e = Connected" | W where "e = Outside W" | "e \<noteq> Stop" "e \<noteq> Connected" "\<forall>W. e \<noteq> Outside W"
    using assms(3) by (cases e) auto
  then show ?thesis
  proof cases
    case 1
    obtain c W c' W' where cw: "cw = (c, W)" "onConnected api (c, W) = (c', W')" by (cases cw, cases "onConnected api cw") auto
    have "cw' = (c', W')" using assms(1) 1 cw by (auto elim: connected_stepE)
    then show ?thesis
      using assms(2) onConnected_parts(1-3) [OF cw(2)] cw(1) by (simp add: live_def parked_def)
  next
    case 2
    with assms obtain ys where "cw' = ((fst cw)\<lparr>sock_sync := ys\<rparr>, W)" using outside_conn by blast
    with assms(2,3) 2 show ?thesis by (simp add: live_def parked_def)
  next
    case 3
    with assms show ?thesis using step_fine [OF assms(1)] by (simp add: fine_def steady_def)
  qed
qed

lemma run_live:
  "link_run S api es cw cw' \<Longrightarrow> live cw \<Longrightarrow> conn_ok (fst cw) \<Longrightarrow> m_state (fst cw) = Connecting \<longrightarrow> dialled (fst cw) \<Longrightarrow>
     list_all (undisturbed (m_device (fst cw))) es \<Longrightarrow> live cw' \<and> (m_state (fst cw') = Connecting \<longrightarrow> dialled (fst cw'))"
proof (induction rule: runs.induct)
  case (step e cw cw1 es cw2)
  have s: "conn_step S api e cw cw1" "attached e cw" using step.hyps(1) by simp_all
  have "live cw1 \<and> m_device (fst cw1) = m_device (fst cw)" using step_live [OF s(1)] step.prems by simp
  moreover have "m_state (fst cw1) = Connecting \<longrightarrow> dialled (fst cw1)"
    using step_dialled [OF s step.prems(2)] step.prems by (auto simp: live_def)
  ultimately show ?case using step step_ok [OF s(1)] by simp
qed simp

text \<open>
  C4: An active device is never abandoned. From the moment its connection is started, as long as nobody
  stops it and the device stays active, whatever the network does (bytes arrive on an open socket
  only): a disconnected connection has its reconnect timer running and its socket closed, so that the
  next attempt finds it closed; a connecting one has a closed socket and its last socket call was
  \<^verbatim>\<open>connectToHost\<close>; a handshake has the timer that aborts it running; and a link that is up is pinged.
\<close>

theorem never_abandoned:
  fixes cw :: "('h, 'c) sys"
  assumes "link_run S api (Start # es) (EspHomeDevice_new r, W) cw" "list_all (undisturbed r) (Outside W # es)"
  shows "waits (fst cw)"
proof -
  let ?cw0 = "(EspHomeDevice_new r :: ('h, 'c) EspHomeDevice, W)"
  have 1: "link_run S api es (connectToDevice ?cw0) cw"
    using assms(1) by (auto simp: runs_Cons elim: conn_step.cases)
  have 2: "live (connectToDevice ?cw0)" "conn_ok (fst (connectToDevice ?cw0))" "dialled (fst (connectToDevice ?cw0))"
      "m_device (fst (connectToDevice ?cw0)) = r"
    using assms(2) by (simp_all add: connectToDevice_def on_conn_def sock_def EspHomeDevice_new_def live_def parked_def
        conn_defs dialled_def)
  have "live cw \<and> (m_state (fst cw) = Connecting \<longrightarrow> dialled (fst cw))"
    by (rule run_live [OF 1 2(1,2)]) (use 2(3,4) assms(2) in simp_all)
  moreover have "conn_ok (fst cw)" using run_ok [OF link_conn [OF assms(1)]] by simp
  ultimately show ?thesis by (intro live_waits) simp_all
qed

lemma never_abandoned_witness:
  "\<exists>cw. link_run example_service toy_api example_events (EspHomeDevice_new 0, example_world) cw \<and> waits (fst cw)"
proof -
  obtain cw where r: "link_run example_service toy_api example_events (EspHomeDevice_new 0, example_world) cw"
    using example_run by blast
  have "waits (fst cw)"
    by (rule never_abandoned [OF r [unfolded example_events_def]])
      (simp add: example_world_def example_device_def new_device_def example_defaults_def wdev_def dev_def alloc_dev_def
        append_dev_def DeviceList_new_def)
  with r show ?thesis by blast
qed

text \<open>
  C13: The receive loop ends on all well-formed messages. On a connection whose invariant holds,
  \<^verbatim>\<open>onReadyRead\<close> returns whatever bytes arrive; or some round of it reaches a frame that decrypts to a
  message one of whose fields declares a length that is negative or overflows as an \<^verbatim>\<open>int\<close>, or to a device
  info response one of whose sub-device descriptions has such a field.
\<close>

theorem receive_returns:
  assumes "conn_ok conn"
  shows "(\<exists>cw'. onReadyRead S api d (conn, W) = Some cw') \<or>
    (\<exists>cw1 t payload. rounds S api (conn\<lparr>m_rxBuf := m_rxBuf conn @ d\<rparr>, W) cw1 \<and>
       next_message api (fst cw1) = Some (t, payload) \<and> bad_message t payload)"
proof (cases "onReadyRead S api d (conn, W)")
  case None
  let ?cw0 = "(conn\<lparr>m_rxBuf := m_rxBuf conn @ d\<rparr>, W)"
  from None obtain cw1 where r: "rounds S api ?cw0 cw1" "ready_round S api cw1 = None"
    using loop_stuck [of S api ?cw0] by (auto simp: onReadyRead_def on_conn_def)
  have "conn_ok (fst ?cw0)" using assms by (simp add: conn_ok_def)
  then have "conn_ok (fst cw1)" using fine_rounds [OF r(1)] by (simp add: fine_def steady_def)
  from round_stuck [OF r(2) this] r(1) show ?thesis by blast
qed blast

lemma receive_returns_witness:
  "(\<exists>cw'. onReadyRead example_service toy_api [0x01, 0x00] (EspHomeDevice_new 0, example_world) = Some cw') \<or>
    (\<exists>cw1 t payload. rounds example_service toy_api
       ((EspHomeDevice_new 0)\<lparr>m_rxBuf := m_rxBuf (EspHomeDevice_new 0 :: (nat, byte) EspHomeDevice) @ [0x01, 0x00]\<rparr>, example_world) cw1 \<and>
       next_message toy_api (fst cw1) = Some (t, payload) \<and> bad_message t payload)"
  by (rule receive_returns [OF new_ok(1)])

end
