(* ===== verification/Manager.thy ===== *)
theory Manager
  imports Lifecycle
begin

text \<open>
  src/esphome.cpp: \<^verbatim>\<open>EspHomeManager\<close>, which keeps one connection per main device in a \<^verbatim>\<open>QMap\<close> from hosts.
  The device list it shares with the controller is the world's. Connecting a device that is not in the
  list would dereference a null \<^verbatim>\<open>Device\<close>: \<open>None\<close>. A deleted connection is dropped: its signals are
  disconnected before its socket is destroyed.
\<close>

record ('h, 'c) EspHomeManager =
  m_connections :: "(string, ('h, 'c) EspHomeDevice) qmap"

type_synonym ('h, 'c) msys = "('h, 'c) EspHomeManager \<times> world"

definition EspHomeManager_new :: "('h, 'c) EspHomeManager" where
  "EspHomeManager_new = \<lparr>m_connections = []\<rparr>"

definition connectDevice :: "dref \<Rightarrow> ('h, 'c) msys \<Rightarrow> ('h, 'c) msys option" where
  "connectDevice r mw =
     (case mw of (M, W) \<Rightarrow>
        let device = wdev W r in
        if d_parentAddress device \<noteq> [] \<or> qm_contains (m_connections M) (d_host device) then Some (M, W)
        else (case byHost (w_devices W) (d_host device) of
                None \<Rightarrow> None
              | Some r' \<Rightarrow>
                  (case connectToDevice (EspHomeDevice_new r', W) of
                     (conn, W') \<Rightarrow> Some (M\<lparr>m_connections := qm_insert (d_host device) conn (m_connections M)\<rparr>, W'))))"

fun connect_each :: "dref list \<Rightarrow> ('h, 'c) msys \<Rightarrow> ('h, 'c) msys option" where
  "connect_each [] mw = Some mw"
| "connect_each (r # rs) mw =
     (if d_parentAddress (wdev (snd mw) r) \<noteq> [] then connect_each rs mw
      else Option.bind (connectDevice r mw) (connect_each rs))"

definition connectAll :: "('h, 'c) msys \<Rightarrow> ('h, 'c) msys option" where
  "connectAll mw = connect_each (dlist (w_devices (snd mw))) mw"

definition disconnectDevice :: "service \<Rightarrow> dref \<Rightarrow> ('h, 'c) msys \<Rightarrow> ('h, 'c) msys" where
  "disconnectDevice S r mw =
     (case mw of (M, W) \<Rightarrow>
        let host = d_host (wdev W r) in
        case map_of (m_connections M) host of
          None \<Rightarrow> (M, W)
        | Some conn \<Rightarrow>
            (M\<lparr>m_connections := qm_remove host (m_connections M)\<rparr>, snd (disconnectFromDevice S (conn, W))))"

definition manager_sendCommand ::
  "service \<Rightarrow> ('h, 'c) noise_api \<Rightarrow> dref \<Rightarrow> quint8 \<Rightarrow> string \<Rightarrow> variant \<Rightarrow> ('h, 'c) msys \<Rightarrow> ('h, 'c) msys" where
  "manager_sendCommand S api r endpointId action value mw =
     (case mw of (M, W) \<Rightarrow>
        let device = wdev W r;
            connHost = (if d_parentAddress device = [] then d_host device else d_parentAddress device)
        in case map_of (m_connections M) connHost of
             None \<Rightarrow> (M, W)
           | Some conn \<Rightarrow>
               (M\<lparr>m_connections := qm_insert connHost (sendCommand S api device endpointId action value conn)
                                    (m_connections M)\<rparr>, W))"

subsection \<open>Connections belong to their hosts\<close>

text \<open>Every connection is kept under the host of its device, and satisfies its own invariant.\<close>

definition man_ok :: "('h, 'c) msys \<Rightarrow> bool" where
  "man_ok mw = (qm_sorted (m_connections (fst mw)) \<and>
     (\<forall>h conn. map_of (m_connections (fst mw)) h = Some conn \<longrightarrow>
        conn_ok conn \<and> m_device conn < length (objs (w_devices (snd mw))) \<and> d_host (wdev (snd mw) (m_device conn)) = h))"

lemma man_ok_new [simp]: "man_ok (EspHomeManager_new, W)"
  by (simp add: man_ok_def EspHomeManager_new_def)

text \<open>What other parts of the service may do to the list without harm: everything but move a host.\<close>

definition hosts_kept :: "DeviceList \<Rightarrow> DeviceList \<Rightarrow> bool" where
  "hosts_kept L M = (length (objs L) \<le> length (objs M) \<and>
     (\<forall>r < length (objs L). d_host (dev M r) = d_host (dev L r)) \<and> (dl_inv L \<longrightarrow> dl_inv M))"

lemma hosts_kept_keeps: "keeps L M \<Longrightarrow> hosts_kept L M"
  by (simp add: keeps_def same_identity_def hosts_kept_def)

lemma hosts_kept_refl [simp]: "hosts_kept L L"
  by (simp add: hosts_kept_def)

lemma hosts_kept_trans: "hosts_kept L M \<Longrightarrow> hosts_kept M N \<Longrightarrow> hosts_kept L N"
  unfolding hosts_kept_def by auto

lemma man_ok_world:
  assumes "man_ok (M, W)" "hosts_kept (w_devices W) (w_devices W')"
  shows "man_ok (M, W')"
  unfolding man_ok_def fst_conv snd_conv
proof (intro conjI allI impI)
  fix h conn assume "map_of (m_connections M) h = Some conn"
  then have "conn_ok conn" "m_device conn < length (objs (w_devices W))" "d_host (wdev W (m_device conn)) = h"
    using assms(1) by (auto simp: man_ok_def)
  then show "conn_ok conn" "m_device conn < length (objs (w_devices W'))" "d_host (wdev W' (m_device conn)) = h"
    using assms(2) by (simp_all add: hosts_kept_def wdev_def)
qed (use assms(1) in \<open>simp add: man_ok_def\<close>)

lemma man_ok_put:
  assumes "man_ok (M, W)" "conn_ok conn" "m_device conn < length (objs (w_devices W))" "d_host (wdev W (m_device conn)) = h"
  shows "man_ok (M\<lparr>m_connections := qm_insert h conn (m_connections M)\<rparr>, W)"
  using assms by (simp add: man_ok_def)

lemma man_ok_drop: "man_ok (M, W) \<Longrightarrow> man_ok (M\<lparr>m_connections := qm_remove h (m_connections M)\<rparr>, W)"
  by (auto simp: man_ok_def)

lemma connectDevice_ok:
  assumes "connectDevice r (M, W) = Some (M', W')" "man_ok (M, W)" "dl_inv (w_devices W)"
  shows "man_ok (M', W') \<and> W' = W"
proof (cases "d_parentAddress (wdev W r) \<noteq> [] \<or> qm_contains (m_connections M) (d_host (wdev W r))")
  case False
  with assms(1) obtain r' c where r': "byHost (w_devices W) (d_host (wdev W r)) = Some r'"
    and c: "connectToDevice (EspHomeDevice_new r', W) = (c, W')"
    and M': "M' = M\<lparr>m_connections := qm_insert (d_host (wdev W r)) c (m_connections M)\<rparr>"
    by (auto simp: connectDevice_def Let_def split: option.splits prod.splits)
  have w: "W' = W" using c by (auto simp: connectToDevice_def on_conn_def split: if_splits)
  have "fine undefined (EspHomeDevice_new r' :: ('a, 'b) EspHomeDevice, W) (c, W')"
    using fine_connect c by metis
  then have "conn_ok c" "m_device c = r'" by (simp_all add: fine_def steady_def)
  moreover have "r' < length (objs (w_devices W))" "d_host (wdev W r') = d_host (wdev W r)"
    using byHost_Some [OF r'] assms(3) by (simp_all add: dl_inv_def wdev_def)
  ultimately show ?thesis unfolding M' w using man_ok_put [OF assms(2)] by simp
qed (use assms in \<open>auto simp: connectDevice_def Let_def\<close>)

lemma connect_each_ok:
  "connect_each rs (M, W) = Some (M', W') \<Longrightarrow> man_ok (M, W) \<Longrightarrow> dl_inv (w_devices W) \<Longrightarrow> man_ok (M', W') \<and> W' = W"
proof (induction rs arbitrary: M)
  case (Cons r rs)
  show ?case
  proof (cases "d_parentAddress (wdev W r) = []")
    case True
    with Cons.prems(1) obtain M1 W1 where 1: "connectDevice r (M, W) = Some (M1, W1)" "connect_each rs (M1, W1) = Some (M', W')"
      by (auto simp: Option.bind_eq_Some_conv)
    have 2: "man_ok (M1, W1)" "W1 = W" using connectDevice_ok [OF 1(1) Cons.prems(2,3)] by blast+
    then have "man_ok (M1, W)" by simp
    with 2 Cons.IH [of M1] 1(2) Cons.prems(3) show ?thesis by blast
  qed (use Cons in simp)
qed simp

text \<open>A requested disconnect says nothing to the broker: the connection counts as offline already.\<close>

lemma disconnect_world: "snd (disconnectFromDevice S (conn, W)) = W"
  by (simp add: disconnectFromDevice_def sock_down_def onDisconnected_def arm_reconnect_def on_conn_def link_up_def sock_def Let_def)

lemma disconnectDevice_ok:
  assumes "man_ok (M, W)"
  shows "man_ok (disconnectDevice S r (M, W)) \<and> snd (disconnectDevice S r (M, W)) = W"
proof (cases "map_of (m_connections M) (d_host (wdev W r))")
  case (Some conn)
  then show ?thesis
    using man_ok_drop [OF assms] by (simp add: disconnectDevice_def Let_def disconnect_world)
qed (use assms in \<open>simp add: disconnectDevice_def Let_def\<close>)

lemma manager_sendCommand_ok:
  assumes "man_ok (M, W)"
  shows "man_ok (manager_sendCommand S api r i action v (M, W)) \<and> snd (manager_sendCommand S api r i action v (M, W)) = W"
proof -
  let ?h = "if d_parentAddress (wdev W r) = [] then d_host (wdev W r) else d_parentAddress (wdev W r)"
  show ?thesis
  proof (cases "map_of (m_connections M) ?h")
    case (Some conn)
    have f: "fine api (conn, W) (sendCommand S api (wdev W r) i action v conn, W)" by (rule fine_sendCommand)
    from assms Some have "conn_ok conn" "m_device conn < length (objs (w_devices W))" "d_host (wdev W (m_device conn)) = ?h"
      by (auto simp: man_ok_def)
    with f have "man_ok (M\<lparr>m_connections := qm_insert ?h (sendCommand S api (wdev W r) i action v conn) (m_connections M)\<rparr>, W)"
      by (intro man_ok_put [OF assms]) (simp_all add: fine_def steady_def)
    then show ?thesis using Some by (simp add: manager_sendCommand_def Let_def)
  qed (use assms in \<open>simp add: manager_sendCommand_def Let_def\<close>)
qed
subsection \<open>Properties\<close>

text \<open>A new connection whose only socket call is to connect to the host and port of its device.\<close>

definition dial :: "world \<Rightarrow> dref \<Rightarrow> ('h, 'c) EspHomeDevice" where
  "dial W r = (EspHomeDevice_new r)\<lparr>m_state := Connecting, m_socket := [ConnectToHost (d_host (wdev W r)) (d_port (wdev W r))]\<rparr>"

lemma dial_connect: "connectToDevice (EspHomeDevice_new r, W) = (dial W r, W)"
  by (simp add: dial_def connectToDevice_def on_conn_def sock_def EspHomeDevice_new_def)

definition main_at :: "world \<Rightarrow> string \<Rightarrow> dref \<Rightarrow> bool" where
  "main_at W h r = (d_host (wdev W r) = h \<and> d_parentAddress (wdev W r) = [])"

lemma connect_each_result:
  assumes "dl_inv (w_devices W)"
  shows "set rs \<subseteq> set (dlist (w_devices W)) \<Longrightarrow> \<exists>M'. connect_each rs (M, W) = Some (M', W) \<and>
     (\<forall>h. map_of (m_connections M') h =
        (case map_of (m_connections M) h of
           Some c \<Rightarrow> Some c
         | None \<Rightarrow> map_option (dial W) (List.find (main_at W h) rs)))"
proof (induction rs arbitrary: M)
  case (Cons r rs)
  have r: "byHost (w_devices W) (d_host (wdev W r)) = Some r"
    using byHost_unique [OF assms] Cons.prems by (simp add: wdev_def)
  show ?case
  proof (cases "d_parentAddress (wdev W r) = []")
    case True
    show ?thesis
    proof (cases "qm_contains (m_connections M) (d_host (wdev W r))")
      case old: True
      then obtain c where "map_of (m_connections M) (d_host (wdev W r)) = Some c" by (auto simp: qm_contains_def)
      moreover obtain M' where "connect_each rs (M, W) = Some (M', W)"
        "\<forall>h. map_of (m_connections M') h = (case map_of (m_connections M) h of Some c \<Rightarrow> Some c
           | None \<Rightarrow> map_option (dial W) (List.find (main_at W h) rs))"
        using Cons.IH [of M] Cons.prems by auto
      ultimately show ?thesis
        using True old by (auto simp: connectDevice_def Let_def main_at_def split: option.splits)
    next
      case new: False
      let ?M1 = "M\<lparr>m_connections := qm_insert (d_host (wdev W r)) (dial W r) (m_connections M)\<rparr>"
      obtain M' where "connect_each rs (?M1, W) = Some (M', W)"
        "\<forall>h. map_of (m_connections M') h = (case map_of (m_connections ?M1) h of Some c \<Rightarrow> Some c
           | None \<Rightarrow> map_option (dial W) (List.find (main_at W h) rs))"
        using Cons.IH [of ?M1] Cons.prems by auto
      then show ?thesis
        using True new r
        by (auto simp: connectDevice_def Let_def main_at_def qm_contains_def dial_connect split: option.splits)
    qed
  next
    case False
    then have "List.find (main_at W h) (r # rs) = List.find (main_at W h) rs" for h by (simp add: main_at_def)
    moreover have "connect_each (r # rs) (M, W) = connect_each rs (M, W)" using False by simp
    ultimately show ?thesis using Cons.IH [of M] Cons.prems by (simp only: list.set insert_subset)
  qed
qed (auto split: option.splits)

lemma connectAll_result:
  fixes M :: "('h, 'c) EspHomeManager"
  assumes "dl_inv (w_devices W)" "connectAll (EspHomeManager_new, W) = Some (M, W')"
  shows "W' = W \<and> map_of (m_connections M) h = map_option (dial W) (List.find (main_at W h) (dlist (w_devices W)))"
proof -
  obtain M' :: "('h, 'c) EspHomeManager" where c: "connectAll (EspHomeManager_new, W) = Some (M', W)" and
    m: "\<forall>h. map_of (m_connections M') h = map_option (dial W) (List.find (main_at W h) (dlist (w_devices W)))"
    using connect_each_result [OF assms(1) subset_refl, of EspHomeManager_new]
    by (auto simp: connectAll_def EspHomeManager_new_def)
  from c assms(2) have "M = M' \<and> W' = W" by (metis option.inject prod.inject)
  with m show ?thesis by blast
qed

text \<open>
  C31: A start connects exactly the main devices. From a well-formed list, \<^verbatim>\<open>connectAll\<close> creates one
  connection per host of a device without a parent, each dialling that device's own host and port, and
  none for a sub-device. (It does not look at the \<^verbatim>\<open>active\<close> flag.)
\<close>

theorem start_connects_main_devices:
  assumes "dl_inv (w_devices W)"
  shows "\<exists>M. connectAll (EspHomeManager_new, W) = Some (M, W) \<and>
    map_of (m_connections M) h = map_option (dial W) (List.find (main_at W h) (dlist (w_devices W)))"
  using connect_each_result [OF assms, of "dlist (w_devices W)" EspHomeManager_new]
  by (auto simp: connectAll_def EspHomeManager_new_def)

lemma example_world_simps:
  "wdev example_world 0 = example_device" "dlist (w_devices example_world) = [0]"
  "dl_inv (w_devices example_world)" "length (objs (w_devices example_world)) = 1"
  by (simp_all add: example_world_def DeviceList_new_def alloc_dev_def wdev_def dev_def append_dev_def dl_inv_def)

lemma start_connects_main_devices_witness:
  "\<exists>M :: (nat, byte) EspHomeManager. connectAll (EspHomeManager_new, example_world) = Some (M, example_world) \<and>
    map_of (m_connections M) ''10.0.0.7'' = Some (dial example_world 0)"
  using start_connects_main_devices [OF example_world_simps(3), of "''10.0.0.7''"]
  by (simp add: example_world_simps main_at_def example_device_def new_device_def)

text \<open>A world with one main device and one sub-device of it.\<close>

definition family_world :: world where
  "family_world = example_world\<lparr>w_devices := append_dev 1 (snd (alloc_dev
     ((new_device example_defaults ''Kitchen'' ''10.0.0.7_Kitchen'' 6053 (replicate 32 7))\<lparr>d_parentAddress := ''10.0.0.7''\<rparr>)
     (w_devices example_world)))\<rparr>"

lemma family_world_simps:
  "wdev family_world 0 = example_device"
  "wdev family_world 1 =
     (new_device example_defaults ''Kitchen'' ''10.0.0.7_Kitchen'' 6053 (replicate 32 7))\<lparr>d_parentAddress := ''10.0.0.7''\<rparr>"
  "dlist (w_devices family_world) = [0, 1]" "length (objs (w_devices family_world)) = 2"
  by (simp_all add: family_world_def example_world_def DeviceList_new_def alloc_dev_def wdev_def dev_def append_dev_def)

lemma family_world_inv: "dl_inv (w_devices family_world)"
proof -
  have "d_host (wdev family_world 0) = ''10.0.0.7''" "d_host (wdev family_world 1) = ''10.0.0.7_Kitchen''"
    by (simp_all add: family_world_simps example_device_def new_device_def del: One_nat_def)
  then show ?thesis
    by (simp add: dl_inv_def family_world_simps(3,4) flip: wdev_def)
qed

end
