(* ===== verification/Controller.thy ===== *)
theory Controller
  imports Manager
begin

text \<open>
  src/controller.cpp, the receiving side of \<^verbatim>\<open>Controller\<close>: what it does when it starts, when the broker
  connects, and for every message received; and the transition relation of the whole service.

  The parser of JSON texts and the conversion of a JSON value to a \<^verbatim>\<open>QVariant\<close> are Qt's: the record
  \<open>json_api\<close>. A command is \<open>None\<close> where the code would dereference a null device.
\<close>

record json_api =
  ja_parse :: "bytes \<Rightarrow> json_object"
  ja_toVariant :: "json \<Rightarrow> variant"

datatype command = restartService | addDevice | removeDevice | updateDevice | getProperties

text \<open>\<^verbatim>\<open>m_commands.keyToValue(action)\<close>; -1, which no case matches, is \<open>None\<close>.\<close>

definition command_of :: "string \<Rightarrow> command option" where
  "command_of s =
     (if s = ''restartService'' then Some restartService
      else if s = ''addDevice'' then Some addDevice
      else if s = ''removeDevice'' then Some removeDevice
      else if s = ''updateDevice'' then Some updateDevice
      else if s = ''getProperties'' then Some getProperties
      else None)"

subsection \<open>Start, stop, broker\<close>

definition Controller_new :: "service \<Rightarrow> bool \<Rightarrow> json option \<Rightarrow> int \<Rightarrow> ('h, 'c) msys option" where
  "Controller_new S names file now =
     connectAll (EspHomeManager_new,
       \<lparr>w_devices = init (s_env S) (c_defaults (s_config S)) (DeviceList_new names file), w_propertiesTimer = False,
        w_mqtt = False, w_now = now, w_out = []\<rparr>)"

definition quit :: "service \<Rightarrow> db_io \<Rightarrow> ('h, 'c) msys \<Rightarrow> ('h, 'c) msys" where
  "quit S io mw =
     (EspHomeManager_new, (snd mw)\<lparr>w_devices := store (s_env S) io True (w_devices (snd mw))\<rparr>)"

definition mqttConnected :: "service \<Rightarrow> world \<Rightarrow> world" where
  "mqttConnected S W =
     (let W1 = send (MqttSubscribe (dev_topic S ''td'' ''#'')) (send (MqttSubscribe (svc_topic S ''command'')) W);
          W2 = foldl (\<lambda>W r. publishExposes S False r (clearStaleTopics S r W)) W1 (dlist (w_devices W1));
          W3 = (if c_haEnabled (s_config S)
                then send (MqttSubscribe (c_haStatus (s_config S)))
                       (send (MqttPublishDiscovery ''ESPHome'' (c_version (s_config S)) (c_haPrefix (s_config S))) W2)
                else W2);
          W4 = foldl (\<lambda>W r. publishDeviceStatus S r W) W3 (dlist (w_devices W3))
      in publishStatus S (send MqttPublishService W4))"

subsection \<open>The commands\<close>

text \<open>\<^verbatim>\<open>byName(id)\<close>, else \<^verbatim>\<open>byHost(id)\<close>.\<close>

definition find_device :: "DeviceList \<Rightarrow> string \<Rightarrow> dref option" where
  "find_device L x = (case byName L x of Some r \<Rightarrow> Some r | None \<Rightarrow> byHost L x)"

definition add_device :: "service \<Rightarrow> json_object \<Rightarrow> ('h, 'c) msys \<Rightarrow> ('h, 'c) msys option" where
  "add_device S obj mw =
     (case mw of (M, W) \<Rightarrow>
        let E = s_env S;
            host = j_toString (jv obj ''host'');
            port = word_of_int (j_toInt 6053 (jv obj ''port''));
            keyB64 = j_toString (jv obj ''key'');
            name = mqttSafe E (j_toString (jv obj ''name''));
            keyBytes = from_base64 E (to_utf8 E keyB64)
        in if host = [] \<or> keyB64 = [] then Some (M, W)
           else if length keyBytes \<noteq> 32 then Some (M, W)
           else if byHost (w_devices W) host \<noteq> None then Some (M, W)
           else
             let name = (if name = [] then mqttSafe E host else name);
                 device = (new_device (c_defaults (s_config S)) name host port keyBytes)
                            \<lparr>d_discovery := j_toBool True (jv obj ''discovery''), d_cloud := j_toBool True (jv obj ''cloud'')\<rparr>;
                 (r, L) = alloc_dev device (w_devices W);
                 W1 = store_later (W\<lparr>w_devices := append_dev r L\<rparr>)
             in map_option (\<lambda>(M, W). (M, publish_event S ''added'' name (publishStatus S W))) (connectDevice r (M, W1)))"

definition removeAt :: "nat \<Rightarrow> 'a list \<Rightarrow> 'a list" where
  "removeAt i xs = take i xs @ drop (Suc i) xs"

definition remove_listed :: "nat \<Rightarrow> world \<Rightarrow> world" where
  "remove_listed i W = W\<lparr>w_devices := (w_devices W)\<lparr>dlist := removeAt i (dlist (w_devices W))\<rparr>\<rparr>"

text \<open>The retractions for one device: its exposes and its retained status.\<close>

definition retract_device :: "service \<Rightarrow> dref \<Rightarrow> world \<Rightarrow> world" where
  "retract_device S r W =
     (let W1 = publishExposes S True r W in
      mqttPublish (dev_topic S ''device'' (deviceTopic S W1 r)) [] True W1)"

text \<open>The loop over the list from its end, with \<open>n\<close> positions left.\<close>

fun remove_subs :: "service \<Rightarrow> dref \<Rightarrow> nat \<Rightarrow> world \<Rightarrow> world" where
  "remove_subs S p 0 W = W"
| "remove_subs S p (Suc i) W =
     (let sub = dlist (w_devices W) ! i in
      if sub = p \<or> d_parentAddress (wdev W sub) \<noteq> address (s_env S) (wdev W p) then remove_subs S p i W
      else let W1 = remove_listed i (retract_device S sub W) in
           remove_subs S p i (publish_event S ''removed'' (d_name (wdev W1 sub)) W1))"

definition remove_device :: "service \<Rightarrow> json_object \<Rightarrow> ('h, 'c) msys \<Rightarrow> ('h, 'c) msys" where
  "remove_device S obj mw =
     (case mw of (M, W) \<Rightarrow>
        case find_device (w_devices W) (j_toString (jv obj ''device'')) of
          None \<Rightarrow> (M, W)
        | Some r \<Rightarrow>
            (let W1 = remove_subs S r (length (dlist (w_devices W))) W;
                 index = find_index (\<lambda>q. q = r) (dlist (w_devices W1))
             in case disconnectDevice S r (M, W1) of
                  (M2, W2) \<Rightarrow>
                    let W3 = retract_device S r W2;
                        W4 = (case index of None \<Rightarrow> W3 | Some i \<Rightarrow> remove_listed i W3);
                        W5 = publishStatus S (store_later W4)
                    in (M2, publish_event S ''removed'' (d_name (wdev W5 r)) W5)))"

definition update_device :: "service \<Rightarrow> json_object \<Rightarrow> world \<Rightarrow> world" where
  "update_device S obj W =
     (case find_device (w_devices W) (j_toString (jv obj ''device'')) of
        None \<Rightarrow> W
      | Some r \<Rightarrow>
          (let change = (\<lambda>k f W. if qm_contains obj k then on_dev r f W else W);
               W1 = change ''name'' (\<lambda>d. d\<lparr>d_name := mqttSafe (s_env S) (j_toString (jv obj ''name''))\<rparr>) W;
               W2 = change ''active'' (\<lambda>d. d\<lparr>d_active := j_toBool False (jv obj ''active'')\<rparr>) W1;
               W3 = change ''discovery'' (\<lambda>d. d\<lparr>d_discovery := j_toBool False (jv obj ''discovery'')\<rparr>) W2;
               W4 = change ''cloud'' (\<lambda>d. d\<lparr>d_cloud := j_toBool False (jv obj ''cloud'')\<rparr>) W3
           in publishStatus S (publishExposes S False r (store_later W4))))"

definition get_properties :: "service \<Rightarrow> json_object \<Rightarrow> world \<Rightarrow> world" where
  "get_properties S obj W =
     (case find_device (w_devices W) (j_toString (jv obj ''device'')) of
        None \<Rightarrow> W
      | Some r \<Rightarrow> updateProperties S W)"

definition command_received :: "service \<Rightarrow> string \<Rightarrow> json_object \<Rightarrow> ('h, 'c) msys \<Rightarrow> ('h, 'c) msys option" where
  "command_received S topic obj mw =
     (case command_of (j_toString (jv obj ''action'')) of
        None \<Rightarrow> Some mw
      | Some restartService \<Rightarrow> Some (fst mw, send ExitRestart (mqttPublish topic [] True (snd mw)))
      | Some addDevice \<Rightarrow> add_device S obj mw
      | Some removeDevice \<Rightarrow> Some (remove_device S obj mw)
      | Some updateDevice \<Rightarrow> Some (fst mw, update_device S obj (snd mw))
      | Some getProperties \<Rightarrow> Some (fst mw, get_properties S obj (snd mw)))"

subsection \<open>Messages\<close>

definition device_received ::
  "service \<Rightarrow> ('h, 'c) noise_api \<Rightarrow> json_api \<Rightarrow> string \<Rightarrow> json_object \<Rightarrow> ('h, 'c) msys \<Rightarrow> ('h, 'c) msys" where
  "device_received S api J rest obj mw =
     (let parts = split_on (CHR ''/'') rest;
          deviceId = (if 0 < length parts then parts ! 0 else []);
          slotStr = (if 1 < length parts then parts ! 1 else [])
      in case find_device (w_devices (snd mw)) deviceId of
           None \<Rightarrow> mw
         | Some r \<Rightarrow>
             if slotStr \<noteq> [] \<and> qs_toUInt slotStr = None then mw
             else
               let slotEndpointId = (if slotStr = [] then 0 else word_of_nat (the (qs_toUInt slotStr)) :: quint8) in
               foldl (\<lambda>mw p.
                 let value = ja_toVariant J (snd p) in
                 if value = VInvalid then mw
                 else
                   let endpointId = (if slotEndpointId \<noteq> 0 then slotEndpointId
                                     else endpointForAction S (wdev (snd mw) r) (fst p))
                   in if endpointId = 0 then mw else manager_sendCommand S api r endpointId (fst p) value mw) mw obj)"

definition mqttReceived ::
  "service \<Rightarrow> ('h, 'c) noise_api \<Rightarrow> json_api \<Rightarrow> bytes \<Rightarrow> string \<Rightarrow> ('h, 'c) msys \<Rightarrow> ('h, 'c) msys option" where
  "mqttReceived S api J message topic mw =
     (let subTopic = drop (length (c_mqttTopic (s_config S) [])) topic;
          obj = ja_parse J message;
          td = ''td/'' @ c_serviceTopic (s_config S) @ ''/''
      in if subTopic = ''command/'' @ c_serviceTopic (s_config S) then command_received S topic obj mw
         else if prefix td subTopic then Some (device_received S api J (drop (length td) subTopic) obj mw)
         else if topic = c_haStatus (s_config S) then
           (if message \<noteq> to_utf8 (s_env S) ''online'' then Some mw
            else Some (fst mw, start_properties_timer (snd mw)))
         else Some mw)"
subsection \<open>The service as a whole\<close>

datatype service_event =
    OnConnection string conn_event
  | Message bytes string
  | BrokerConnected
  | BrokerLost
  | Tick int
  | PropertiesTimer
  | StoreTimer db_io

text \<open>
  What the event loop runs on a connection by itself; the public calls come through the manager. The
  world changes in the step, not from outside.
\<close>

definition spontaneous :: "conn_event \<Rightarrow> world \<Rightarrow> bool" where
  "spontaneous e W = (case e of Start \<Rightarrow> False | Stop \<Rightarrow> False | Command r i action v \<Rightarrow> False | Outside W' \<Rightarrow> W' = W | _ \<Rightarrow> True)"

inductive service_step ::
  "service \<Rightarrow> ('h, 'c) noise_api \<Rightarrow> json_api \<Rightarrow> service_event \<Rightarrow> ('h, 'c) msys \<Rightarrow> ('h, 'c) msys \<Rightarrow> bool"
  for S api J where
  connection: "map_of (m_connections M) h = Some conn \<Longrightarrow> spontaneous e W \<Longrightarrow> conn_step S api e (conn, W) (conn', W') \<Longrightarrow>
     service_step S api J (OnConnection h e) (M, W) (M\<lparr>m_connections := qm_insert h conn' (m_connections M)\<rparr>, W')"
| received: "mqttReceived S api J m topic mw = Some mw' \<Longrightarrow> service_step S api J (Message m topic) mw mw'"
| broker: "service_step S api J BrokerConnected (M, W) (M, mqttConnected S (W\<lparr>w_mqtt := True\<rparr>))"
| lost: "service_step S api J BrokerLost (M, W) (M, W\<lparr>w_mqtt := False\<rparr>)"
| tick: "service_step S api J (Tick n) (M, W) (M, W\<lparr>w_now := n\<rparr>)"
| properties: "service_step S api J PropertiesTimer (M, W) (M, properties_timeout S W)"
| saved_file: "service_step S api J (StoreTimer io) (M, W) (M, W\<lparr>w_devices := timer_timeout (s_env S) io (w_devices W)\<rparr>)"

text \<open>The invariant: a well-formed device list, and every connection kept under its device's host.\<close>

definition service_ok :: "('h, 'c) msys \<Rightarrow> bool" where
  "service_ok mw = (dl_inv (w_devices (snd mw)) \<and> man_ok mw)"

lemma service_ok_world:
  "service_ok (M, W) \<Longrightarrow> hosts_kept (w_devices W) (w_devices W') \<Longrightarrow> service_ok (M, W')"
  using man_ok_world [of M W W'] by (auto simp: service_ok_def hosts_kept_def)

text \<open>Changes of a list that concern neither its objects nor its order.\<close>

lemma kept_files: "dlist M = dlist L \<Longrightarrow> objs M = objs L \<Longrightarrow> hosts_kept L M"
  by (simp add: hosts_kept_def dl_inv_def dev_def)

lemma kept_store_later: "hosts_kept (w_devices W) (w_devices (store_later W))"
  by (rule kept_files) (simp_all add: store_later_def)

lemma kept_mqttConnected: "hosts_kept (w_devices W) (w_devices (mqttConnected S W))"
proof -
  let ?f = "\<lambda>W r. publishExposes S False r (clearStaleTopics S r W)"
  let ?W1 = "send (MqttSubscribe (dev_topic S ''td'' ''#'')) (send (MqttSubscribe (svc_topic S ''command'')) W)"
  have "w_devices (foldl (\<lambda>W r. publishDeviceStatus S r W) V rs) = w_devices V" for V rs
    by (induction rs arbitrary: V) simp_all
  then have "w_devices (mqttConnected S W) = w_devices (foldl ?f ?W1 (dlist (w_devices W)))"
    by (simp add: mqttConnected_def Let_def send_def)
  moreover have "keeps (w_devices ?W1) (w_devices (foldl ?f ?W1 (dlist (w_devices W))))"
    by (rule keeps_foldl) (simp add: keeps_same [OF same_clearStaleTopics])
  ultimately show ?thesis using hosts_kept_keeps by (simp add: send_def)
qed

lemma devices_updateProperties [simp]: "w_devices (updateProperties S W) = w_devices W"
proof -
  have "w_devices (foldl (\<lambda>W r. if \<not> d_active (wdev W r) then W else publishDeviceState S r W) V rs) = w_devices V" for V rs
    by (induction rs arbitrary: V) simp_all
  then show ?thesis by (simp add: updateProperties_def)
qed

lemma devices_properties_timeout [simp]: "w_devices (properties_timeout S W) = w_devices W"
  by (simp add: properties_timeout_def)

lemma kept_timer: "hosts_kept L (timer_timeout E io L)"
  by (rule kept_files) (simp_all add: timer_timeout_def writeDatabase_def)

lemma kept_upd_dev: "hosts_kept L M \<Longrightarrow> (\<And>d. d_host (f d) = d_host d) \<Longrightarrow> hosts_kept L (upd_dev r f M)"
  using dl_inv_upd_dev [of f M r] by (simp add: hosts_kept_def upd_dev_host)

lemma kept_update_device: "hosts_kept (w_devices W) (w_devices (update_device S obj W))"
proof (cases "find_device (w_devices W) (j_toString (jv obj ''device''))")
  case (Some r)
  then show ?thesis
    by (auto simp: update_device_def Let_def intro!: kept_upd_dev hosts_kept_trans [OF _ kept_store_later])
qed (simp add: update_device_def)
subsection \<open>Removal\<close>

lemma remove_listed_simps [simp]:
  "dlist (w_devices (remove_listed i W)) = removeAt i (dlist (w_devices W))"
  "objs (w_devices (remove_listed i W)) = objs (w_devices W)" "wdev (remove_listed i W) r = wdev W r"
  by (simp_all add: remove_listed_def wdev_def dev_def)

lemma retract_devices [simp]:
  "w_devices (retract_device S r W) = w_devices W" "w_devices (publish_event S e n W) = w_devices W"
  by (simp_all add: retract_device_def mqttPublish_sends Let_def)

lemma wdev_same [simp]: "wdev (retract_device S r W) q = wdev W q" "wdev (publish_event S e n W) q = wdev W q"
  by (simp_all add: wdev_def)

definition not_sub_of :: "service \<Rightarrow> world \<Rightarrow> dref \<Rightarrow> dref \<Rightarrow> bool" where
  "not_sub_of S W p q = (q = p \<or> d_parentAddress (wdev W q) \<noteq> address (s_env S) (wdev W p))"

lemma not_sub_of_cong: "(\<And>q. wdev V q = wdev W q) \<Longrightarrow> not_sub_of S V = not_sub_of S W"
  by (auto simp: not_sub_of_def fun_eq_iff)

lemma remove_subs_result:
  "n \<le> length (dlist (w_devices W)) \<Longrightarrow>
     dlist (w_devices (remove_subs S p n W)) =
       filter (not_sub_of S W p) (take n (dlist (w_devices W))) @ drop n (dlist (w_devices W)) \<and>
     objs (w_devices (remove_subs S p n W)) = objs (w_devices W)"
proof (induction n arbitrary: W)
  case (Suc i)
  let ?xs = "dlist (w_devices W)"
  let ?sub = "?xs ! i"
  have t: "take (Suc i) ?xs = take i ?xs @ [?sub]" using Suc.prems by (simp add: take_Suc_conv_app_nth)
  have d: "drop i ?xs = ?sub # drop (Suc i) ?xs" using Suc.prems by (simp add: Cons_nth_drop_Suc)
  show ?case
  proof (cases "not_sub_of S W p ?sub")
    case True
    then show ?thesis using Suc.IH [of W] Suc.prems t d by (simp add: not_sub_of_def)
  next
    case False
    let ?V = "remove_listed i (retract_device S ?sub W)"
    let ?V' = "publish_event S ''removed'' (d_name (wdev ?V ?sub)) ?V"
    have l: "dlist (w_devices ?V') = take i ?xs @ drop (Suc i) ?xs" "objs (w_devices ?V') = objs (w_devices W)"
      by (simp_all add: removeAt_def)
    moreover have "not_sub_of S ?V' = not_sub_of S W" by (rule not_sub_of_cong) simp
    moreover have "remove_subs S p (Suc i) W = remove_subs S p i ?V'"
      using False by (simp add: not_sub_of_def Let_def)
    ultimately show ?thesis
      using Suc.IH [of ?V'] Suc.prems False t by simp
  qed
qed simp

lemma removeAt_unique:
  assumes "find_index (\<lambda>q. q = r) xs = Some i" "distinct xs"
  shows "removeAt i xs = filter (\<lambda>q. q \<noteq> r) xs"
  using assms
proof (induction xs arbitrary: i)
  case (Cons x xs)
  show ?case
  proof (cases "x = r")
    case True
    moreover have "filter (\<lambda>q. q \<noteq> x) xs = xs" using Cons.prems(2) by (auto simp: filter_id_conv)
    ultimately show ?thesis using Cons.prems by (simp add: removeAt_def)
  next
    case False
    with Cons.prems(1) obtain j where "find_index (\<lambda>q. q = r) xs = Some j" "i = Suc j" by auto
    with Cons False show ?thesis by (simp add: removeAt_def)
  qed
qed simp

lemma find_device_listed: "find_device L x = Some r \<Longrightarrow> r \<in> set (dlist L)"
  by (auto simp: find_device_def dest: byName_Some byHost_Some split: option.splits)

lemma remove_device_result:
  assumes "find_device (w_devices W) (j_toString (jv obj ''device'')) = Some r" "distinct (dlist (w_devices W))"
  shows "dlist (w_devices (snd (remove_device S obj (M, W)))) =
      filter (\<lambda>q. q \<noteq> r \<and> d_parentAddress (wdev W q) \<noteq> address (s_env S) (wdev W r)) (dlist (w_devices W))"
    "objs (w_devices (snd (remove_device S obj (M, W)))) = objs (w_devices W)"
    "m_connections (fst (remove_device S obj (M, W))) =
      (if qm_contains (m_connections M) (d_host (wdev W r)) then qm_remove (d_host (wdev W r)) (m_connections M) else m_connections M)"
proof -
  let ?xs = "dlist (w_devices W)"
  let ?W1 = "remove_subs S r (length ?xs) W"
  have W1: "dlist (w_devices ?W1) = filter (not_sub_of S W r) ?xs" "objs (w_devices ?W1) = objs (w_devices W)"
    using remove_subs_result [of "length ?xs" W S r] by simp_all
  have "r \<in> set (dlist (w_devices ?W1))" using find_device_listed [OF assms(1)] by (simp add: W1 not_sub_of_def)
  then obtain i where i: "find_index (\<lambda>q. q = r) (dlist (w_devices ?W1)) = Some i"
    using find_index_None [of "\<lambda>q. q = r" "dlist (w_devices ?W1)"] by (cases "find_index (\<lambda>q. q = r) (dlist (w_devices ?W1))") auto
  have rm: "removeAt i (dlist (w_devices ?W1)) =
      filter (\<lambda>q. q \<noteq> r \<and> d_parentAddress (wdev W q) \<noteq> address (s_env S) (wdev W r)) ?xs"
    unfolding removeAt_unique [OF i distinct_filter [of ?xs "not_sub_of S W r", folded W1(1), OF assms(2)]]
    unfolding W1(1) filter_filter by (rule filter_cong) (auto simp: not_sub_of_def)
  have host: "wdev ?W1 r = wdev W r" using W1(2) by (simp add: wdev_def dev_def)
  have dis: "snd (disconnectDevice S r (M, ?W1)) = ?W1"
      "m_connections (fst (disconnectDevice S r (M, ?W1))) = (if qm_contains (m_connections M) (d_host (wdev W r))
       then qm_remove (d_host (wdev W r)) (m_connections M) else m_connections M)"
    by (auto simp: disconnectDevice_def disconnect_world host qm_contains_def Let_def split: option.splits)
  show "dlist (w_devices (snd (remove_device S obj (M, W)))) =
      filter (\<lambda>q. q \<noteq> r \<and> d_parentAddress (wdev W q) \<noteq> address (s_env S) (wdev W r)) ?xs"
    "objs (w_devices (snd (remove_device S obj (M, W)))) = objs (w_devices W)"
    "m_connections (fst (remove_device S obj (M, W))) =
      (if qm_contains (m_connections M) (d_host (wdev W r)) then qm_remove (d_host (wdev W r)) (m_connections M) else m_connections M)"
    using assms(1) i dis rm W1(2) by (simp_all add: remove_device_def Let_def store_later_def prod.case_eq_if)
qed

lemma kept_sublist:
  assumes "dlist M = filter P (dlist L)" "objs M = objs L"
  shows "hosts_kept L M"
  using assms by (auto simp: hosts_kept_def dl_inv_def dev_def distinct_map_filter)

subsection \<open>Addition\<close>

definition accepts :: "service \<Rightarrow> json_object \<Rightarrow> DeviceList \<Rightarrow> bool" where
  "accepts S obj L =
     (j_toString (jv obj ''host'') \<noteq> [] \<and> j_toString (jv obj ''key'') \<noteq> [] \<and>
      length (from_base64 (s_env S) (to_utf8 (s_env S) (j_toString (jv obj ''key'')))) = 32 \<and>
      byHost L (j_toString (jv obj ''host'')) = None)"

definition added_device :: "service \<Rightarrow> json_object \<Rightarrow> DeviceObject" where
  "added_device S obj =
     (let E = s_env S; host = j_toString (jv obj ''host''); name = mqttSafe E (j_toString (jv obj ''name'')) in
      (new_device (c_defaults (s_config S)) (if name = [] then mqttSafe E host else name) host
         (word_of_int (j_toInt 6053 (jv obj ''port''))) (from_base64 E (to_utf8 E (j_toString (jv obj ''key'')))))
        \<lparr>d_discovery := j_toBool True (jv obj ''discovery''), d_cloud := j_toBool True (jv obj ''cloud'')\<rparr>)"

lemma add_rejected: "\<not> accepts S obj (w_devices W) \<Longrightarrow> add_device S obj (M, W) = Some (M, W)"
  by (auto simp: add_device_def accepts_def Let_def)

text \<open>The list with the new device at its end, about to be stored.\<close>

definition with_added :: "service \<Rightarrow> json_object \<Rightarrow> world \<Rightarrow> world" where
  "with_added S obj W =
     store_later (W\<lparr>w_devices := append_dev (length (objs (w_devices W))) (snd (alloc_dev (added_device S obj) (w_devices W)))\<rparr>)"

lemma with_added_list:
  "dlist (w_devices (with_added S obj W)) = dlist (w_devices W) @ [length (objs (w_devices W))]"
  "length (objs (w_devices (with_added S obj W))) = Suc (length (objs (w_devices W)))"
  "wdev (with_added S obj W) (length (objs (w_devices W))) = added_device S obj"
  by (simp_all add: with_added_def store_later_def wdev_def dev_def append_dev_def alloc_dev_def)

lemma kept_with_added:
  assumes "accepts S obj (w_devices W)"
  shows "hosts_kept (w_devices W) (w_devices (with_added S obj W))"
proof -
  have h: "d_host (added_device S obj) = j_toString (jv obj ''host'')" by (simp add: added_device_def new_device_def Let_def)
  let ?L = "append_dev (length (objs (w_devices W))) (snd (alloc_dev (added_device S obj) (w_devices W)))"
  have "hosts_kept (w_devices W) ?L"
    using dl_inv_add [of "w_devices W" "added_device S obj"] assms h by (simp add: hosts_kept_def accepts_def)
  then show ?thesis
    unfolding with_added_def by (intro hosts_kept_trans [OF _ kept_store_later]) simp
qed

lemma add_accepted:
  assumes "accepts S obj (w_devices W)" "dl_inv (w_devices W)"
  shows "\<exists>M'. connectDevice (length (objs (w_devices W))) (M, with_added S obj W) = Some (M', with_added S obj W) \<and>
    add_device S obj (M, W) =
      Some (M', publish_event S ''added'' (d_name (added_device S obj)) (publishStatus S (with_added S obj W)))"
proof -
  let ?V = "with_added S obj W" and ?r = "length (objs (w_devices W))"
  have "dl_inv (w_devices ?V)" using kept_with_added [OF assms(1)] assms(2) by (simp add: hosts_kept_def)
  then have "byHost (w_devices ?V) (d_host (wdev ?V ?r)) = Some ?r"
    using byHost_unique [of "w_devices ?V" ?r] by (simp add: with_added_list wdev_def)
  then obtain M' where c: "connectDevice ?r (M, ?V) = Some (M', ?V)"
    by (cases "d_parentAddress (wdev ?V ?r) \<noteq> [] \<or> qm_contains (m_connections M) (d_host (wdev ?V ?r))")
      (simp_all add: connectDevice_def dial_connect Let_def)
  have "d_name (added_device S obj) = (if mqttSafe (s_env S) (j_toString (jv obj ''name'')) = []
      then mqttSafe (s_env S) (j_toString (jv obj ''host'')) else mqttSafe (s_env S) (j_toString (jv obj ''name'')))"
    by (simp add: added_device_def new_device_def Let_def)
  with c assms(1) show ?thesis
    by (auto simp: add_device_def accepts_def with_added_def added_device_def alloc_dev_def Let_def)
qed
subsection \<open>Every step keeps the invariant\<close>

lemma received_loop:
  assumes "service_ok (M, W)"
  shows "\<exists>M'. device_received S api J rest obj (M, W) = (M', W) \<and> service_ok (M', W)"
proof -
  have step: "\<exists>M'. (if b then (M, W) else if c then (M, W) else manager_sendCommand S api r i k v (M, W)) = (M', W) \<and> service_ok (M', W)"
    if "service_ok (M, W)" for M b c r i k v
    using that manager_sendCommand_ok [of M W S api r i k v]
    by (cases "manager_sendCommand S api r i k v (M, W)") (auto simp: service_ok_def)
  have loop: "\<exists>M'. foldl (\<lambda>mw p. let value = ja_toVariant J (snd p) in
        if value = VInvalid then mw
        else let endpointId = (if sl \<noteq> 0 then sl else endpointForAction S (wdev (snd mw) r) (fst p))
             in if endpointId = 0 then mw else manager_sendCommand S api r endpointId (fst p) value mw) (M, W) obj = (M', W)
      \<and> service_ok (M', W)" if "service_ok (M, W)" for M r and sl :: quint8
    using that
  proof (induction obj arbitrary: M)
    case (Cons p obj)
    obtain M1 where m: "(let value = ja_toVariant J (snd p) in
        if value = VInvalid then (M, W)
        else let endpointId = (if sl \<noteq> 0 then sl else endpointForAction S (wdev (snd (M, W)) r) (fst p))
             in if endpointId = 0 then (M, W) else manager_sendCommand S api r endpointId (fst p) value (M, W)) = (M1, W)"
      and ok: "service_ok (M1, W)"
      using step [OF Cons.prems, of "ja_toVariant J (snd p) = VInvalid"] unfolding Let_def by blast
    show ?case unfolding foldl_Cons m by (rule Cons.IH [OF ok])
  qed auto
  show ?thesis
    using assms loop
    by (auto simp: device_received_def Let_def split: option.splits)
qed

lemma add_device_ok:
  assumes "service_ok (M, W)"
  shows "\<exists>mw'. add_device S obj (M, W) = Some mw' \<and> service_ok mw'"
proof (cases "accepts S obj (w_devices W)")
  case True
  have dl: "dl_inv (w_devices W)" using assms by (simp add: service_ok_def)
  let ?V = "with_added S obj W"
  obtain M' where c: "connectDevice (length (objs (w_devices W))) (M, ?V) = Some (M', ?V)"
    and a: "add_device S obj (M, W) = Some (M', publish_event S ''added'' (d_name (added_device S obj)) (publishStatus S ?V))"
    using add_accepted [OF True dl] by blast
  have V: "service_ok (M, ?V)" by (rule service_ok_world [OF assms kept_with_added [OF True]])
  then have "man_ok (M', ?V)" using connectDevice_ok [OF c] by (simp add: service_ok_def)
  then have "service_ok (M', ?V)" using V by (simp add: service_ok_def)
  then have "service_ok (M', publish_event S ''added'' (d_name (added_device S obj)) (publishStatus S ?V))"
    by (rule service_ok_world) simp
  with a show ?thesis by blast
next
  case False
  then show ?thesis using assms add_rejected by blast
qed

lemma remove_device_ok:
  assumes "service_ok (M, W)"
  shows "service_ok (remove_device S obj (M, W))"
proof (cases "find_device (w_devices W) (j_toString (jv obj ''device''))")
  case (Some r)
  have "distinct (dlist (w_devices W))" using assms dl_inv_distinct by (simp add: service_ok_def)
  note res = remove_device_result [OF Some this, of S M]
  obtain M' W' where mw: "remove_device S obj (M, W) = (M', W')" by (cases "remove_device S obj (M, W)")
  have k: "hosts_kept (w_devices W) (w_devices W')"
    using kept_sublist [of "w_devices W'" _ "w_devices W"] res(1,2) mw by simp
  have "man_ok (M', W)"
    using assms res(3) mw by (auto simp: service_ok_def man_ok_def split: if_splits)
  then have "service_ok (M', W)" using assms by (simp add: service_ok_def)
  then show ?thesis unfolding mw by (rule service_ok_world [OF _ k])
qed (use assms in \<open>simp add: remove_device_def\<close>)

lemma received_ok:
  assumes "service_ok mw"
  shows "\<exists>mw'. mqttReceived S api J m topic mw = Some mw' \<and> service_ok mw'"
proof -
  obtain M W where mw: "mw = (M, W)" by (cases mw)
  note ok = assms [unfolded mw]
  have w: "service_ok (M, W')" if "w_devices W' = w_devices W" for W'
    by (rule service_ok_world [OF ok]) (simp add: that)
  have gp: "w_devices (get_properties S obj W) = w_devices W" for obj
    by (simp add: get_properties_def split: option.splits)
  have rm: "\<exists>V V'. remove_device S obj (M, W) = (V, V') \<and> service_ok (V, V')" for obj
    using remove_device_ok [OF ok, of S obj] by (cases "remove_device S obj (M, W)") simp
  have cmd: "\<exists>mw'. command_received S topic obj (M, W) = Some mw' \<and> service_ok mw'" for obj
    using add_device_ok [OF ok] rm ok w gp service_ok_world [OF ok kept_update_device]
    by (auto simp: command_received_def send_def mqttPublish_sends split: option.splits command.splits)
  have props: "service_ok (M, start_properties_timer W)" by (rule w) (simp add: start_properties_timer_def)
  show ?thesis
    using cmd received_loop [OF ok, of S api J] props ok
    unfolding mw mqttReceived_def Let_def by (auto split: if_splits) (metis)+
qed

lemma connection_ok:
  assumes "service_ok (M, W)" "map_of (m_connections M) h = Some conn" "spontaneous e W" "conn_step S api e (conn, W) (conn', W')"
  shows "service_ok (M\<lparr>m_connections := qm_insert h conn' (m_connections M)\<rparr>, W')"
proof -
  have k: "keeps (w_devices W) (w_devices W')"
  proof -
    consider "e = Connected" | "e = Outside W" | "e \<noteq> Stop" "e \<noteq> Connected" "\<forall>V. e \<noteq> Outside V"
      using assms(3) by (cases e) (auto simp: spontaneous_def)
    then show ?thesis
    proof cases
      case 1
      with assms(4) have "onConnected api (conn, W) = (conn', W')" by (auto elim: connected_stepE)
      then show ?thesis using onConnected_parts(1) by fastforce
    next
      case 2
      with assms(4) show ?thesis using outside_conn by fastforce
    next
      case 3
      then show ?thesis using step_fine [OF assms(4)] by (simp add: fine_def steady_def)
    qed
  qed
  have c: "conn_ok conn" "m_device conn < length (objs (w_devices W))" "d_host (wdev W (m_device conn)) = h"
    using assms(1,2) by (auto simp: service_ok_def man_ok_def)
  then have c': "conn_ok conn'" "m_device conn' = m_device conn" using step_ok [OF assms(4)] by simp_all
  have V: "service_ok (M, W')" by (rule service_ok_world [OF assms(1) hosts_kept_keeps [OF k]])
  have "m_device conn < length (objs (w_devices W'))" "d_host (wdev W' (m_device conn)) = h"
    using hosts_kept_keeps [OF k] c by (simp_all add: hosts_kept_def wdev_def)
  then show ?thesis
    using V c' man_ok_put [of M W' conn' h] by (simp add: service_ok_def)
qed

lemma service_step_ok: "service_step S api J e mw mw' \<Longrightarrow> service_ok mw \<Longrightarrow> service_ok mw'"
proof (induction rule: service_step.induct)
  case (connection M h conn e W conn' W')
  then show ?case using connection_ok by blast
next
  case (received m topic mw mw')
  then show ?case using received_ok [of mw S api J m topic] by simp
next
  case (broker M W)
  show ?case by (rule service_ok_world [OF broker])
      (use kept_mqttConnected [of "W\<lparr>w_mqtt := True\<rparr>" S] in simp)
next
  case (saved_file io M W)
  show ?case by (rule service_ok_world [OF saved_file]) (simp add: kept_timer)
qed (auto intro: service_ok_world)

lemma service_run_ok: "runs (service_step S api J) es mw mw' \<Longrightarrow> service_ok mw \<Longrightarrow> service_ok mw'"
  by (induction rule: runs.induct) (auto intro: service_step_ok)
subsection \<open>Properties\<close>

lemma connectAll_total:
  assumes "dl_inv (w_devices W)"
  shows "\<exists>M :: ('h, 'c) EspHomeManager. connectAll (EspHomeManager_new, W) = Some (M, W) \<and> man_ok (M, W)"
proof -
  obtain M :: "('h, 'c) EspHomeManager" where c: "connect_each (dlist (w_devices W)) (EspHomeManager_new, W) = Some (M, W)"
    using connect_each_result [OF assms subset_refl, of EspHomeManager_new] by blast
  from connect_each_ok [OF c man_ok_new assms] c show ?thesis by (auto simp: connectAll_def)
qed

text \<open>
  C5: The service's invariant. Started on a database whose devices have pairwise different hosts, the
  service starts, and after any sequence of broker messages, broker connections and losses, timers, and
  socket events and received data on any connection: the hosts are still pairwise different, every
  connection is kept under the host of its device and satisfies the connection invariant, and the next
  broker message, whatever it is, is handled without dereferencing a null device.
\<close>

theorem service_invariant:
  fixes mw0 :: "('h, 'c) msys"
  assumes "dl_inv (init (s_env S) (c_defaults (s_config S)) (DeviceList_new names file))"
    "Controller_new S names file now = Some mw0" "runs (service_step S api J) es mw0 mw"
  shows "service_ok mw \<and> (\<exists>mw'. mqttReceived S api J m topic mw = Some mw')"
proof -
  let ?W0 = "\<lparr>w_devices = init (s_env S) (c_defaults (s_config S)) (DeviceList_new names file), w_propertiesTimer = False,
        w_mqtt = False, w_now = now, w_out = []\<rparr>"
  have "dl_inv (w_devices ?W0)" using assms(1) by simp
  from connectAll_total [OF this] obtain M0 :: "('h, 'c) EspHomeManager"
    where "connectAll (EspHomeManager_new, ?W0) = Some (M0, ?W0)" "man_ok (M0, ?W0)" by blast
  moreover from this assms(2) have "mw0 = (M0, ?W0)" by (simp add: Controller_new_def)
  ultimately have "service_ok mw0" using assms(1) by (simp add: service_ok_def)
  then have "service_ok mw" by (rule service_run_ok [OF assms(3)])
  then show ?thesis using received_ok by blast
qed

definition example_json :: json_api where
  "example_json = \<lparr>ja_parse = (\<lambda>m. []), ja_toVariant = (\<lambda>j. VInvalid)\<rparr>"

lemma service_invariant_witness:
  "\<exists>mw :: (nat, byte) msys. service_ok mw \<and> w_mqtt (snd mw) \<and>
     (\<exists>mw'. mqttReceived example_service toy_api example_json [] ''homed/command/esphome'' mw = Some mw')"
proof -
  let ?L = "init (s_env example_service) (c_defaults (s_config example_service)) (DeviceList_new False None)"
  have L: "?L = DeviceList_new False None" by (simp add: init_def unserialize_def DeviceList_new_def jv_def j_toArray_def)
  have inv: "dl_inv ?L" unfolding L by (simp add: DeviceList_new_def dl_inv_def)
  obtain M :: "(nat, byte) EspHomeManager" and W where c: "Controller_new example_service False None 0 = Some (M, W)"
    using connectAll_total [of "\<lparr>w_devices = ?L, w_propertiesTimer = False, w_mqtt = False, w_now = 0, w_out = []\<rparr>"] inv
    by (auto simp: Controller_new_def)
  let ?mw = "(M, mqttConnected example_service (W\<lparr>w_mqtt := True\<rparr>))"
  have r: "runs (service_step example_service toy_api example_json) [BrokerConnected] (M, W) ?mw"
    by (rule runs.step [OF _ runs.idle]) (rule service_step.broker)
  have q: "w_mqtt (publishDeviceStatus S x V) = w_mqtt V" "w_mqtt (publishStatus S V) = w_mqtt V" for S x V
    by (simp_all add: publishStatus_def send_def publishDeviceStatus_def mqttPublish_def Let_def)
  have "w_devices W = DeviceList_new False None"
    using c L connectAll_result [of "\<lparr>w_devices = ?L, w_propertiesTimer = False, w_mqtt = False, w_now = 0, w_out = []\<rparr>" M W] inv
    by (auto simp: Controller_new_def)
  then have "w_mqtt (snd ?mw)"
    by (simp add: mqttConnected_def send_def DeviceList_new_def q Let_def)
  with service_invariant [OF inv c r, of "[]" "''homed/command/esphome''"] show ?thesis by blast
qed

text \<open>
  C17: Removing a device removes it and its sub-devices, and nothing else. The device is the one with
  that name, or else that host; the other devices stay, in order and unchanged; the device's
  connection is gone and the other connections stay.
\<close>

theorem removal_cascades:
  assumes "find_device (w_devices W) (j_toString (jv obj ''device'')) = Some r" "dl_inv (w_devices W)"
  shows "\<exists>M' W'. remove_device S obj (M, W) = (M', W') \<and>
    dlist (w_devices W') =
      filter (\<lambda>q. q \<noteq> r \<and> d_parentAddress (wdev W q) \<noteq> address (s_env S) (wdev W r)) (dlist (w_devices W)) \<and>
    wdev W' = wdev W \<and>
    map_of (m_connections M') h = (if h = d_host (wdev W r) then None else map_of (m_connections M) h)"
proof -
  obtain M' W' where mw: "remove_device S obj (M, W) = (M', W')" by (cases "remove_device S obj (M, W)")
  note res = remove_device_result [OF assms(1) dl_inv_distinct [OF assms(2)], of S M, unfolded mw fst_conv snd_conv]
  have "wdev W' = wdev W" using res(2) by (simp add: fun_eq_iff wdev_def dev_def)
  then show ?thesis
    using mw res by (auto simp: qm_contains_def)
qed

lemma removal_cascades_witness:
  "\<exists>M' W'. remove_device example_service (jobj [(''device'', JString ''lamp'')])
       (EspHomeManager_new :: (nat, byte) EspHomeManager, family_world) = (M', W') \<and>
     dlist (w_devices W') = []"
proof -
  let ?obj = "jobj [(''device'', JString ''lamp'')]"
  have n: "d_name (wdev family_world 0) = ''lamp''" "d_host (wdev family_world 0) = ''10.0.0.7''"
      "d_parentAddress (wdev family_world 1) = ''10.0.0.7''"
    by (simp_all add: family_world_simps example_device_def new_device_def del: One_nat_def)
  have "find_device (w_devices family_world) (j_toString (jv ?obj ''device'')) = Some 0"
    using n(1) by (simp add: find_device_def byName_def byName_index_def family_world_simps(3) jobj_def j_toString_def flip: wdev_def)
  from removal_cascades [OF this family_world_inv, of example_service "EspHomeManager_new :: (nat, byte) EspHomeManager" "[]"] n
  show ?thesis by (auto simp: family_world_simps(3) address_def example_service_def ascii_env_def)
qed

text \<open>
  C32: Adding a device. A request with a host not in the list yet and a key of 32 bytes appends one device
  with the requested host, port, key and name (made safe; the host when there is none), schedules the
  database to be written, and leaves a connection under its host; any other request changes nothing at
  all.
\<close>

theorem addition_appends:
  assumes "dl_inv (w_devices W)"
  shows "\<exists>M' W'. add_device S obj (M, W) = Some (M', W') \<and>
    (if accepts S obj (w_devices W)
     then let r = length (objs (w_devices W)) in
       dlist (w_devices W') = dlist (w_devices W) @ [r] \<and> wdev W' r = added_device S obj \<and>
       m_timer (w_devices W') \<and> dl_inv (w_devices W') \<and>
       qm_contains (m_connections M') (j_toString (jv obj ''host''))
     else M' = M \<and> W' = W)"
proof (cases "accepts S obj (w_devices W)")
  case True
  let ?V = "with_added S obj W" and ?r = "length (objs (w_devices W))"
  obtain M' where c: "connectDevice ?r (M, ?V) = Some (M', ?V)"
    and a: "add_device S obj (M, W) = Some (M', publish_event S ''added'' (d_name (added_device S obj)) (publishStatus S ?V))"
    using add_accepted [OF True assms] by blast
  have d: "d_host (added_device S obj) = j_toString (jv obj ''host'')" "d_parentAddress (added_device S obj) = []"
    by (simp_all add: added_device_def new_device_def Let_def)
  have "qm_contains (m_connections M') (j_toString (jv obj ''host''))"
    using c d by (auto simp: connectDevice_def with_added_list dial_connect Let_def split: if_splits option.splits)
  moreover have "dl_inv (w_devices ?V)" using kept_with_added [OF True] assms by (simp add: hosts_kept_def)
  moreover have "m_timer (w_devices ?V)" by (simp add: with_added_def store_later_def)
  ultimately show ?thesis
    using a True with_added_list(3) [of S obj W] by (simp add: with_added_list wdev_def Let_def)
next
  case False
  then show ?thesis using add_rejected [OF False, of M] by simp
qed

lemma addition_appends_witness:
  "\<exists>M' W'. add_device example_service (jobj []) (EspHomeManager_new :: (nat, byte) EspHomeManager, family_world) = Some (M', W') \<and>
     W' = family_world"
  using addition_appends [OF family_world_inv, of example_service "jobj []" "EspHomeManager_new :: (nat, byte) EspHomeManager"]
  by (auto simp: accepts_def jobj_def jv_def j_toString_def)

text \<open>
  C40: A device renamed to nothing is lost. The update command stores whatever name it is given, also an
  empty one (a JSON value that is not a string reads as empty too); such a device is written to the
  database, but skipped when the database is read.
\<close>

theorem renamed_to_nothing_is_lost:
  assumes "find_device (w_devices W) (j_toString (jv obj ''device'')) = Some r" "dl_inv (w_devices W)"
    "qm_contains obj ''name''" "mqttSafe (s_env S) (j_toString (jv obj ''name'')) = []"
  shows "let d = wdev (update_device S obj W) r in
    d_name d = [] \<and> r \<in> set (dlist (w_devices (update_device S obj W))) \<and> parse (s_env S) D (serialize_device (s_env S) d) = None"
proof -
  have r: "r < length (objs (w_devices W))" "r \<in> set (dlist (w_devices W))"
    using find_device_listed [OF assms(1)] assms(2) by (auto simp: dl_inv_def)
  have "d_name (wdev (update_device S obj W) r) = []" "r \<in> set (dlist (w_devices (update_device S obj W)))"
    using assms(1,3,4) r by (auto simp: update_device_def Let_def store_later_def wdev_def dev_def upd_dev_def)
  then show ?thesis
    by (simp add: parse_def serialize_device_def insert_if_def j_toString_def Let_def)
qed
lemma renamed_to_nothing_is_lost_witness:
  "let W' = update_device example_service (jobj [(''device'', JString ''lamp''), (''name'', JNull)]) family_world in
    d_name (wdev W' 0) = [] \<and> parse ascii_env example_defaults (serialize_device ascii_env (wdev W' 0)) = None"
proof -
  let ?obj = "jobj [(''device'', JString ''lamp''), (''name'', JNull)]"
  have n: "d_name (wdev family_world 0) = ''lamp''" by (simp add: family_world_simps example_device_def new_device_def)
  have "find_device (w_devices family_world) (j_toString (jv ?obj ''device'')) = Some 0"
    using n by (simp add: find_device_def byName_def byName_index_def family_world_simps(3) jobj_def j_toString_def flip: wdev_def)
  moreover have "qm_contains ?obj ''name''" "mqttSafe ascii_env (j_toString (jv ?obj ''name'')) = []"
    by (simp_all add: jobj_def j_toString_def ascii_env_def)
  moreover have "s_env example_service = ascii_env" by (simp add: example_service_def)
  ultimately show ?thesis
    using renamed_to_nothing_is_lost [OF _ family_world_inv, of ?obj 0 example_service example_defaults]
    by (simp add: Let_def)
qed

end
