(* ===== verification/System.thy ===== *)
theory System
  imports Controller
begin

text \<open>
  The way of one message through all parts: from a frame on the socket to the handler of its message, and
  from an MQTT message to a frame on the socket. The properties at the end of the root theory rest on these.
\<close>

lemma single_frame:
  assumes "length x < 2 ^ 16"
  shows "next_frame (frame_of x) = Item x []"
  using next_frame_frame_of [OF assms, of "[]"] by simp

text \<open>A frame that arrives whole is decrypted, parsed and handled.\<close>

lemma frame_handled:
  assumes conn: "m_rxBuf conn = []" "link_up (m_state conn)" "m_noise conn = Some n" "m_complete n"
    and x: "length x < 2 ^ 16" "decrypt api x n = (n', message_inner t payload)" "length payload < 2 ^ 16"
    and handled: "processMessage S api t payload (conn\<lparr>m_noise := Some n'\<rparr>, W) = Some (conn', W')" "m_rxBuf conn' = []"
  shows "onReadyRead S api (frame_of x) (conn, W) = Some (conn', W')"
proof -
  let ?cw = "(conn\<lparr>m_rxBuf := frame_of x\<rparr>, W)"
  have plain: "message_inner t payload \<noteq> []" "\<not> length (message_inner t payload) < 4"
    by (simp_all add: message_inner_def be16_def)
  have conn_same: "conn\<lparr>m_rxBuf := [], m_noise := Some n'\<rparr> = conn\<lparr>m_noise := Some n'\<rparr>"
    using conn(1) by simp
  have "handle_frame S api x (conn\<lparr>m_rxBuf := []\<rparr>, W) = encrypted_frame S api x (conn\<lparr>m_rxBuf := []\<rparr>, W)"
    using conn(2) by (auto simp: handle_frame_def link_up_def)
  also have "\<dots> = Some (True, (conn', W'))"
    using conn(3,4) x(2) plain handled(1) conn_same
    by (simp add: encrypted_frame_def on_conn_def Let_def parse_inner_message [OF x(3)])
  finally have "ready_round S api ?cw = Some (True, (conn', W'))"
    by (simp add: ready_round_def single_frame [OF x(1)] on_conn_def)
  moreover have "frame_of x \<noteq> []" by (simp add: frame_of_def)
  ultimately show ?thesis
    using conn(1) handled(2)
    by (simp add: onReadyRead_def on_conn_def ready_loop.simps [of S api ?cw] ready_loop.simps [of S api "(conn', W')"])
qed

lemma state_message_handled:
  assumes "is_state_message t" "decode payload = Some fs"
  shows "processMessage S api (msg_id t) payload (conn, W) = Some (conn, apply_state S t fs conn W)"
  unfolding processMessage_def msg_of_id option.case using assms
  by (cases t) (simp_all add: is_state_message_def is_entity_message_def entity_type_def processStateUpdate_def)

text \<open>The endpoint's update and what is published because of it.\<close>

definition updated_world :: "dref \<Rightarrow> quint8 \<Rightarrow> variant_map \<Rightarrow> world \<Rightarrow> world" where
  "updated_world r i st W = on_dev r (\<lambda>d. (update_endpoint i (set_states st) d)\<lparr>d_lastSeen := w_now W\<rparr>) W"

lemma apply_state_published:
  assumes "read_state (s_env S) t fs = (key, st)" "key \<noteq> 0"
    "findEndpointByKey (s_env S) conn (w_devices W) key = Some (r, i)" "map_of (d_endpoints (wdev W r)) i = Some ep"
    "w_mqtt W"
  shows "apply_state S t fs conn W =
    (let V = updated_world r i (finish_state S t ep (state_defaults t st)) W
     in sends (state_messages S (deviceTopic S V r) (wdev V r)) V)"
  using assms
  by (simp add: apply_state_def updated_world_def Let_def stateChanged_def publishDeviceState_sends on_dev_def)

lemma updated_topic:
  "r < length (objs (w_devices W)) \<Longrightarrow> deviceTopic S (updated_world r i st W) r = deviceTopic S W r"
  by (simp add: deviceTopic_def updated_world_def on_dev_def wdev_def dev_def upd_dev_def update_endpoint_def address_def split: option.split)

subsection \<open>From MQTT to the socket\<close>

definition device_topic :: "service \<Rightarrow> string \<Rightarrow> string" where
  "device_topic S rest = c_mqttTopic (s_config S) [] @ ''td/'' @ c_serviceTopic (s_config S) @ ''/'' @ rest"

lemma device_message_routed:
  "mqttReceived S api J m (device_topic S rest) mw = Some (device_received S api J rest (ja_parse J m) mw)"
  by (simp add: mqttReceived_def device_topic_def Let_def)

text \<open>The endpoint a message is for: the one the topic numbers, else the one with the member's object id.\<close>

definition addressed :: "service \<Rightarrow> DeviceObject \<Rightarrow> string list \<Rightarrow> string \<Rightarrow> quint8 \<Rightarrow> bool" where
  "addressed S d slot k i = (i \<noteq> 0 \<and>
     (case slot of [] \<Rightarrow> endpointForAction S d k = i | s # _ \<Rightarrow> s \<noteq> [] \<and> qs_toUInt s = Some (unat i)))"

lemma device_received_one:
  assumes "split_on (CHR ''/'') rest = name # slot" "find_device (w_devices (snd mw)) name = Some r"
    "addressed S (wdev (snd mw) r) slot k i" "ja_toVariant J j \<noteq> VInvalid"
  shows "device_received S api J rest [(k, j)] mw = manager_sendCommand S api r i k (ja_toVariant J j) mw"
  using assms by (cases slot) (simp_all add: device_received_def addressed_def Let_def)

lemma main_command_sent:
  assumes "d_parentAddress (wdev W r) = []" "map_of (m_connections M) (d_host (wdev W r)) = Some conn"
    "m_state conn = Subscribe" "m_noise conn = Some n" "m_complete n"
    "map_of (d_endpoints (wdev W r)) i = Some ep" "command_message S ep k v = Some (t, payload)"
    "encrypt api (message_inner (msg_id t) payload) n = (n', x)"
  shows "manager_sendCommand S api r i k v (M, W) =
    (M\<lparr>m_connections := qm_insert (d_host (wdev W r))
         (conn\<lparr>m_noise := Some n', m_socket := m_socket conn @ [Write (frame_of x)]\<rparr>) (m_connections M)\<rparr>, W)"
  using assms by (simp add: manager_sendCommand_def sendCommand_def sendMessage_def sendRaw_def sock_def Let_def)

lemma sub_command_sent:
  assumes "d_parentAddress (wdev W r) = h" "h \<noteq> []" "map_of (m_connections M) h = Some conn"
    "m_state conn = Subscribe" "m_noise conn = Some n" "m_complete n"
    "map_of (d_endpoints (wdev W r)) i = Some ep" "command_message S ep k v = Some (t, payload)"
    "encrypt api (message_inner (msg_id t) payload) n = (n', x)"
  shows "manager_sendCommand S api r i k v (M, W) =
    (M\<lparr>m_connections := qm_insert h
         (conn\<lparr>m_noise := Some n', m_socket := m_socket conn @ [Write (frame_of x)]\<rparr>) (m_connections M)\<rparr>, W)"
  using assms by (simp add: manager_sendCommand_def sendCommand_def sendMessage_def sendRaw_def sock_def Let_def)

subsection \<open>An instance for witnesses\<close>

text \<open>The lamp's connection, subscribed, with fresh ciphers; and a broker that turns the lamp on.\<close>

definition ready_noise :: "(nat, byte) NoiseNNpsk0" where
  "ready_noise = \<lparr>m_handshake = None, m_sendCipher = Some 0, m_recvCipher = Some 0, m_complete = True\<rparr>"

definition lamp_conn :: "(nat, byte) EspHomeDevice" where
  "lamp_conn = (EspHomeDevice_new 0)\<lparr>m_state := Subscribe, m_noise := Some ready_noise\<rparr>"

definition lamp_json :: json_api where
  "lamp_json = \<lparr>ja_parse = (\<lambda>m. [(''status'', JString ''on'')]), ja_toVariant = (\<lambda>j. VStr ''on'')\<rparr>"

lemma lamp_conn_simps:
  "m_rxBuf lamp_conn = []" "m_state lamp_conn = Subscribe" "m_noise lamp_conn = Some ready_noise" "m_device lamp_conn = 0"
  "m_socket lamp_conn = []" "m_complete ready_noise"
  by (simp_all add: lamp_conn_def EspHomeDevice_new_def ready_noise_def)

lemma ready_ciphers:
  "encrypt toy_api p ready_noise = (ready_noise\<lparr>m_sendCipher := Some 1\<rparr>, p @ [0])"
  "decrypt toy_api (p @ [0]) ready_noise = (ready_noise\<lparr>m_recvCipher := Some 1\<rparr>, p)"
  by (simp_all add: encrypt_def decrypt_def ready_noise_def toy_api_def)

lemma lamp_device:
  "d_host (wdev example_world 0) = ''10.0.0.7''" "d_parentAddress (wdev example_world 0) = []"
  "find_device (w_devices example_world) ''lamp'' = Some 0" "w_mqtt example_world"
proof -
  show "d_host (wdev example_world 0) = ''10.0.0.7''" "d_parentAddress (wdev example_world 0) = []"
    by (simp_all add: lamp_world example_device_def new_device_def)
  have "dlist (w_devices example_world) = [0]" "d_name (wdev example_world 0) = ''lamp''"
    by (simp_all add: example_world_simps example_device_def new_device_def)
  then show "find_device (w_devices example_world) ''lamp'' = Some 0"
    by (simp add: find_device_def byName_def byName_index_def flip: wdev_def)
  show "w_mqtt example_world" by (simp add: example_world_def)
qed

lemma lamp_lengths: "length (emit_all [AddFixed32 1 77, AddVarint 2 1]) = 7"
  by (simp add: emit_all_def addFixed32_def addVarint_def writeTag_def writeVarint.simps word_le_nat_alt)

subsection \<open>Sub-devices\<close>

text \<open>
  C39: Where the commands of a sub-device go. Let its parent's connection be up, the endpoint have a
  message for the command, and nothing be connected under the parent's topic-safe address unless that
  is its host. If it is, one frame with that message is written on the parent's connection. If
  \<^verbatim>\<open>mqttSafe\<close> changes the parent's host, the command is dropped without a trace, though the parent is
  connected.
\<close>

theorem sub_commands_routed:
  assumes parent: "d_parentAddress (wdev W r) = address (s_env S) (wdev W p)" "address (s_env S) (wdev W p) \<noteq> []"
    and conn: "map_of (m_connections M) (d_host (wdev W p)) = Some conn"
      "address (s_env S) (wdev W p) = d_host (wdev W p) \<or> map_of (m_connections M) (address (s_env S) (wdev W p)) = None"
    and up: "m_state conn = Subscribe" "m_noise conn = Some n" "m_complete n"
    and command: "map_of (d_endpoints (wdev W r)) i = Some ep" "command_message S ep k v = Some (t, payload)"
      "encrypt api (message_inner (msg_id t) payload) n = (n', x)"
  shows "manager_sendCommand S api r i k v (M, W) =
    (if mqttSafe (s_env S) (d_host (wdev W p)) = d_host (wdev W p)
     then (M\<lparr>m_connections := qm_insert (d_host (wdev W p))
            (conn\<lparr>m_noise := Some n', m_socket := m_socket conn @ [Write (frame_of x)]\<rparr>) (m_connections M)\<rparr>, W)
     else (M, W))"
proof (cases "address (s_env S) (wdev W p) = d_host (wdev W p)")
  case True
  then have "manager_sendCommand S api r i k v (M, W) =
      (M\<lparr>m_connections := qm_insert (address (s_env S) (wdev W p))
         (conn\<lparr>m_noise := Some n', m_socket := m_socket conn @ [Write (frame_of x)]\<rparr>) (m_connections M)\<rparr>, W)"
    using conn(1) by (intro sub_command_sent [OF parent _ up command]) simp
  then show ?thesis using True by (simp add: address_def)
next
  case False
  then show ?thesis using parent conn(2) by (simp add: manager_sendCommand_def address_def Let_def)
qed

text \<open>A parent and a sub-device with a light; and an environment in which topics have no dots.\<close>

definition kitchen :: "string \<Rightarrow> DeviceObject" where
  "kitchen parent = (new_device example_defaults ''Kitchen'' ''10.0.0.7_Kitchen'' 6053 (replicate 32 7))
     \<lparr>d_parentAddress := parent, d_endpoints := [(3, lamp)]\<rparr>"

definition kitchen_world :: "string \<Rightarrow> world" where
  "kitchen_world parent =
     example_world\<lparr>w_devices := append_dev 1 (snd (alloc_dev (kitchen parent) (w_devices example_world)))\<rparr>"

definition dotless :: service where
  "dotless = example_service\<lparr>s_env := ascii_env\<lparr>mqttSafe := filter (\<lambda>c. c \<noteq> CHR ''.'')\<rparr>\<rparr>"

lemma kitchen_simps:
  "wdev (kitchen_world a) 0 = example_device" "wdev (kitchen_world a) 1 = kitchen a"
  by (simp_all add: kitchen_world_def example_world_def DeviceList_new_def alloc_dev_def wdev_def dev_def append_dev_def)

lemma sub_commands_routed_witness:
  "let M = \<lparr>m_connections = [(''10.0.0.7'', lamp_conn)]\<rparr>; W = kitchen_world ''10.0.0.7''; W' = kitchen_world ''10007'' in
   manager_sendCommand example_service toy_api 1 3 ''status'' (VStr ''on'') (M, W) =
     (\<lparr>m_connections = [(''10.0.0.7'', lamp_conn\<lparr>m_noise := Some (ready_noise\<lparr>m_sendCipher := Some 1\<rparr>),
         m_socket := [Write (frame_of (message_inner (msg_id LightCommand) (emit_all lamp_on) @ [0]))]\<rparr>)]\<rparr>, W) \<and>
   manager_sendCommand dotless toy_api 1 3 ''status'' (VStr ''on'') (M, W') = (M, W')"
proof -
  let ?M = "\<lparr>m_connections = [(''10.0.0.7'', lamp_conn)]\<rparr>"
  let ?x = "message_inner (msg_id LightCommand) (emit_all lamp_on) @ [0]"
  have p: "d_host (wdev (kitchen_world a) 0) = ''10.0.0.7''" "d_parentAddress (wdev (kitchen_world a) 1) = a"
      "map_of (d_endpoints (wdev (kitchen_world a) 1)) 3 = Some lamp" for a
    by (simp_all add: kitchen_simps kitchen_def example_device_def new_device_def del: One_nat_def)
  have m: "mqttSafe ascii_env ''10.0.0.7'' = ''10.0.0.7''" "mqttSafe (s_env dotless) ''10.0.0.7'' = ''10007''"
    by (simp_all add: dotless_def example_service_def ascii_env_def)
  then have a: "address ascii_env (wdev (kitchen_world x) 0) = ''10.0.0.7''"
      "address (s_env dotless) (wdev (kitchen_world x) 0) = ''10007''" for x
    by (simp_all add: address_def p(1))
  have "lower (s_env dotless) (VStr ''on'') = ''on''"
    by (simp add: lower_def dotless_def ascii_env_def) code_simp
  then have c: "command_message dotless lamp ''status'' (VStr ''on'') = Some (LightCommand, emit_all lamp_on)"
    by (simp add: command_message_def m_str_def lamp_simps Let_def cmd_light_def wanted_on_def is_on_def
        emit_all_def addBool_def lamp_on_def)
  have "manager_sendCommand example_service toy_api 1 3 ''status'' (VStr ''on'') (?M, kitchen_world ''10.0.0.7'') =
      (?M\<lparr>m_connections := qm_insert (d_host (wdev (kitchen_world ''10.0.0.7'') 0)) (lamp_conn\<lparr>m_noise := Some (ready_noise\<lparr>m_sendCipher := Some 1\<rparr>),
         m_socket := m_socket lamp_conn @ [Write (frame_of ?x)]\<rparr>) (m_connections ?M)\<rparr>, kitchen_world ''10.0.0.7'')"
    using sub_commands_routed [of "kitchen_world ''10.0.0.7''" 1 example_service 0 ?M lamp_conn, OF _ _ _ _ lamp_conn_simps(2,3,6) p(3) lamp_command
        ready_ciphers(1)] by (simp add: a p m del: One_nat_def)
  moreover have "manager_sendCommand dotless toy_api 1 3 ''status'' (VStr ''on'') (?M, kitchen_world ''10007'') = (?M, kitchen_world ''10007'')"
    using sub_commands_routed [of "kitchen_world ''10007''" 1 dotless 0 ?M lamp_conn, OF _ _ _ _ lamp_conn_simps(2,3,6) p(3) c
        ready_ciphers(1)] by (simp add: a p m del: One_nat_def)
  moreover have "qm_insert h y [(h, z)] = [(h, y)]" for h :: string and y z :: "(nat, byte) EspHomeDevice"
    by (simp add: qm_insert_def)
  ultimately show ?thesis by (simp add: lamp_conn_simps(5) p(1))
qed

end
