(* ===== verification/Chunks.thy ===== *)
theory Chunks
  imports Lifecycle
begin

text \<open>
  src/esphome.cpp, \<^verbatim>\<open>onReadyRead\<close>: TCP may deliver the stream in any chunks. What a handler does to a
  connection does not depend on what is behind the frame in the buffer, so receiving chunk after chunk
  is the same as receiving all of them at once - until a handler closes the socket, for the loop
  returns there with the rest still in the buffer.
\<close>

definition with_buf :: "bytes \<Rightarrow> ('h, 'c) sys \<Rightarrow> ('h, 'c) sys" where
  "with_buf b cw = on_conn (\<lambda>conn. conn\<lparr>m_rxBuf := b\<rparr>) cw"

lemma with_buf_simps [simp]:
  "with_buf b (c, W) = (c\<lparr>m_rxBuf := b\<rparr>, W)" "fst (with_buf b cw) = (fst cw)\<lparr>m_rxBuf := b\<rparr>" "snd (with_buf b cw) = snd cw"
  by (simp_all add: with_buf_def on_conn_def)

lemma with_buf_same [simp]: "with_buf (m_rxBuf (fst cw)) cw = cw"
  by (cases cw) simp

subsection \<open>Handlers do not look behind the frame\<close>

lemma buf_send [simp]: "sendMessage api t p (c\<lparr>m_rxBuf := b\<rparr>) = (sendMessage api t p c)\<lparr>m_rxBuf := b\<rparr>"
  by (auto simp: sendMessage_def sendRaw_def sock_def split: option.split prod.split)

lemma buf_send_state [simp]:
  "sendMessage api t p (c\<lparr>m_rxBuf := b, m_state := x\<rparr>) = (sendMessage api t p (c\<lparr>m_state := x\<rparr>))\<lparr>m_rxBuf := b\<rparr>"
  "sendMessage api t p (c\<lparr>m_rxBuf := b, m_pendingEntities := es, m_state := x\<rparr>) =
     (sendMessage api t p (c\<lparr>m_pendingEntities := es, m_state := x\<rparr>))\<lparr>m_rxBuf := b\<rparr>"
  "sendMessage api t p (c\<lparr>m_rxBuf := b, m_noise := n, m_state := x, m_handshakeTimer := y, m_pingTimer := z\<rparr>) =
     (sendMessage api t p (c\<lparr>m_noise := n, m_state := x, m_handshakeTimer := y, m_pingTimer := z\<rparr>))\<lparr>m_rxBuf := b\<rparr>"
  by (auto simp: sendMessage_def sendRaw_def sock_def split: option.split prod.split)

lemma buf_entity [simp]: "processEntityInfo E t p (c\<lparr>m_rxBuf := b\<rparr>) = map_option (\<lambda>c. c\<lparr>m_rxBuf := b\<rparr>) (processEntityInfo E t p c)"
  by (auto simp: processEntityInfo_def Let_def option.map_comp comp_def intro!: option.map_cong)

lemma buf_subDevice [simp]: "subDevice S (c\<lparr>m_rxBuf := b\<rparr>) = subDevice S c"
  by (intro ext) (simp add: subDevice_def)

lemma buf_groups [simp]: "apply_groups S (c\<lparr>m_rxBuf := b\<rparr>) gs touched W = apply_groups S c gs touched W"
  by (induction gs arbitrary: touched W) (auto split: prod.split)

lemma buf_discovered [simp]: "applyDiscoveredEntities S (c\<lparr>m_rxBuf := b\<rparr>) W = applyDiscoveredEntities S c W"
  by (simp add: applyDiscoveredEntities_def)

lemma buf_known [simp]: "knownSubDevices E (c\<lparr>m_rxBuf := b\<rparr>) L = knownSubDevices E c L"
  by (simp add: knownSubDevices_def)

lemma buf_find [simp]: "findEndpointByKey E (c\<lparr>m_rxBuf := b\<rparr>) = findEndpointByKey E c"
  by (intro ext) (simp add: findEndpointByKey_def)

lemma buf_state [simp]: "apply_state S t fs (c\<lparr>m_rxBuf := b\<rparr>) = apply_state S t fs c"
  by (intro ext) (auto simp: apply_state_def split: prod.split)

lemma buf_stateUpdate [simp]: "processStateUpdate S t p (c\<lparr>m_rxBuf := b\<rparr>) W = processStateUpdate S t p c W"
  by (simp add: processStateUpdate_def)

lemma buf_adopt [simp]: "adopt_name S p (with_buf b cw) = with_buf b (adopt_name S p cw)"
  by (cases cw) (simp add: adopt_name_def on_world_def Let_def)

lemma buf_info: "info_field S f (with_buf b cw) = map_option (with_buf b) (info_field S f cw)"
  by (cases cw)
    (auto simp: info_field_def Let_def on_conn_def on_world_def option.map_comp comp_def intro!: option.map_cong split: prod.split)

lemma buf_infos: "info_fields S fs (with_buf b cw) = map_option (with_buf b) (info_fields S fs cw)"
proof (induction fs arbitrary: cw)
  case (Cons f fs)
  then show ?case by (cases "info_field S f cw") (simp_all add: buf_info)
qed simp

lemma buf_deviceInfo: "processDeviceInfo S api p (with_buf b cw) = map_option (with_buf b) (processDeviceInfo S api p cw)"
proof (cases "decode p")
  case (Some fs)
  have "on_conn (\<lambda>conn. conn\<lparr>m_subDeviceNames := []\<rparr>) (with_buf b cw) = with_buf b (on_conn (\<lambda>conn. conn\<lparr>m_subDeviceNames := []\<rparr>) cw)"
    by (simp add: on_conn_def)
  moreover have "on_conn (\<lambda>conn. sendMessage api ListEntitiesRequest [] (conn\<lparr>m_pendingEntities := [], m_state := ListEntities\<rparr>)) (with_buf b x) =
      with_buf b (on_conn (\<lambda>conn. sendMessage api ListEntitiesRequest [] (conn\<lparr>m_pendingEntities := [], m_state := ListEntities\<rparr>)) x)" for x
    by (simp add: on_conn_def)
  ultimately show ?thesis using Some by (simp add: processDeviceInfo_def buf_infos option.map_comp comp_def)
qed (simp add: processDeviceInfo_def)

text \<open>A handler that only writes has closed nothing.\<close>

definition only_writes :: "('h, 'c) EspHomeDevice \<Rightarrow> ('h, 'c) EspHomeDevice \<Rightarrow> bool" where
  "only_writes c d = (\<exists>bs. m_socket d = m_socket c @ map Write bs)"

lemma only_writes_split:
  assumes "only_writes a c" "talks api a b" "talks api b c"
  shows "only_writes a b \<and> only_writes b c"
proof -
  from assms obtain bs xs ys where "m_socket c = m_socket a @ map Write bs" "m_socket b = m_socket a @ xs" "m_socket c = m_socket b @ ys"
    unfolding only_writes_def talks_def by blast
  then show ?thesis unfolding only_writes_def by (auto simp: append_eq_map_conv)
qed

lemma socket_onDisconnected [simp]: "m_socket (fst (onDisconnected S cw)) = m_socket (fst cw)"
  by (simp add: onDisconnected_def arm_reconnect_def on_conn_def Let_def)

lemma socket_down: "m_socket (fst (sock_down S x cw)) = m_socket (fst cw) @ [x]"
  by (simp add: sock_down_def Let_def on_conn_def sock_def)

lemma closing:
  assumes "talks api c (fst cw)"
  shows "\<not> only_writes c (fst (sock_down S DisconnectFromHost cw))"
proof
  assume "only_writes c (fst (sock_down S DisconnectFromHost cw))"
  then obtain bs xs where "m_socket (fst cw) = m_socket c @ xs" "m_socket (fst cw) @ [DisconnectFromHost] = m_socket c @ map Write bs"
    using assms unfolding only_writes_def talks_def socket_down by blast
  then have "DisconnectFromHost \<in> set (map Write bs)" by (metis append_assoc append_same_eq in_set_conv_decomp same_append_eq)
  then show False by auto
qed

lemma buf_message:
  assumes "processMessage S api mtype p cw = Some cw'" "only_writes (fst cw) (fst cw')"
  shows "processMessage S api mtype p (with_buf b cw) = Some (with_buf b cw')"
proof (cases "msg_of mtype")
  case (Some t)
  obtain c W where cw: "cw = (c, W)" by (cases cw)
  have "\<not> only_writes c (fst (sock_down S DisconnectFromHost (sendMessage api DisconnectResponse [] c, W)))"
    by (rule closing [of api]) (simp add: talks_send)
  then have "t \<noteq> DisconnectRequest"
    using assms Some cw
    by (auto simp: processMessage_def is_entity_message_def is_state_message_def on_conn_def entity_type_def)
  then show ?thesis
    using assms(1) Some buf_deviceInfo [of S api p b cw] unfolding cw
    by (cases cw') (auto simp: processMessage_def on_conn_def on_world_def Let_def split: if_splits)
qed (use assms in \<open>simp add: processMessage_def\<close>)

lemma buf_encrypted:
  assumes "encrypted_frame S api p cw = Some (goon, cw')" "only_writes (fst cw) (fst cw')"
    and "link_up (m_state (fst cw))" "conn_ok (fst cw)"
  shows "goon \<and> encrypted_frame S api p (with_buf b cw) = Some (True, with_buf b cw')"
proof -
  obtain c W where cw: "cw = (c, W)" by (cases cw)
  obtain n n' x where n: "m_noise c = Some n" "m_complete n" and d: "decrypt api p n = (n', x)"
    using assms(3,4) cw by (cases "decrypt api p (the (m_noise c))") (auto simp: conn_ok_def)
  let ?c1 = "c\<lparr>m_noise := Some n'\<rparr>"
  have t: "talks api c ?c1" by (rule talks_decrypt [OF _ n(1), of _ api p]) (use d in simp_all)
  have "\<not> only_writes c (fst (sock_down S DisconnectFromHost (?c1, W)))"
    by (rule closing [of api]) (simp add: t)
  then have x: "x \<noteq> []"
    using assms(1,2) n d cw by (auto simp: encrypted_frame_def on_conn_def Let_def)
  obtain mtype m where i: "parse_inner x = (mtype, m)" by (cases "parse_inner x")
  have "processMessage S api mtype m (with_buf b (?c1, W)) = Some (with_buf b cw')" if "processMessage S api mtype m (?c1, W) = Some cw'"
  proof (rule buf_message [OF that])
    have "talks api ?c1 (fst cw')" using fine_message [OF that] assms(3) cw by (simp add: fine_def steady_def)
    then show "only_writes (fst (?c1, W)) (fst cw')" using only_writes_split [OF _ t] assms(2) cw by simp
  qed
  moreover have swap: "(c\<lparr>m_rxBuf := b, m_noise := Some n'\<rparr>, W) = with_buf b (?c1, W)" by simp
  ultimately have "processMessage S api mtype m (c\<lparr>m_rxBuf := b, m_noise := Some n'\<rparr>, W) = Some (with_buf b cw')"
    if "processMessage S api mtype m (?c1, W) = Some cw'" using that by (simp only: swap)
  then show ?thesis
    using assms(1) n d x i by (auto simp: cw encrypted_frame_def on_conn_def Let_def split: if_splits)
qed

lemma buf_frame:
  assumes "handle_frame S api p cw = Some (goon, cw')" "only_writes (fst cw) (fst cw')" "conn_ok (fst cw)"
  shows "goon \<and> handle_frame S api p (with_buf b cw) = Some (True, with_buf b cw')"
proof (cases "link_up (m_state (fst cw))")
  case True
  then show ?thesis
    using assms buf_encrypted [of S api p cw goon cw' b] handle_up [of cw S api p] handle_up [of "with_buf b cw" S api p] by simp
next
  case False
  obtain c W where cw: "cw = (c, W)" by (cases cw)
  have no: "\<not> only_writes c (fst (sock_down S DisconnectFromHost (c', W')))" if "talks api c c'" for c' W'
    using closing [of api c "(c', W')" S] that by simp
  show ?thesis
  proof (cases "m_state c")
    case ServerHello
    then show ?thesis using assms(1,2) no [OF talks_refl, of c W] buf_adopt [of S p b cw] cw
      by (cases "adopt_name S p cw") (auto simp: handle_frame_def on_conn_def split: if_splits)
  next
    case NoiseHandshake
    then obtain n n' ok where n: "m_noise c = Some n" and r: "readHandshake api (qba_mid p 1 (-1)) n = (n', ok)"
      using assms(3) cw by (cases "readHandshake api (qba_mid p 1 (-1)) (the (m_noise c))") (auto simp: conn_defs)
    have t: "talks api c (c\<lparr>m_noise := Some n'\<rparr>)" by (rule talks_read [OF _ n, of _ api "qba_mid p 1 (-1)"]) (use r in simp_all)
    show ?thesis using assms(1,2) NoiseHandshake n r no [OF t, of W] no [OF talks_refl, of c W] cw
      by (auto simp: handle_frame_def on_conn_def on_world_def Let_def split: if_splits)
  qed (use assms(1) False cw in \<open>auto simp: handle_frame_def link_up_def\<close>)
qed

subsection \<open>Rounds and chunks\<close>

abbreviation behind :: "bytes \<Rightarrow> ('h, 'c) sys \<Rightarrow> ('h, 'c) sys" where
  "behind b cw \<equiv> with_buf (m_rxBuf (fst cw) @ b) cw"

lemma round_behind:
  assumes "ready_round S api cw = Some (goon, cw')" "only_writes (fst cw) (fst cw')" "conn_ok (fst cw)"
  shows "if goon then ready_round S api (behind b cw) = Some (True, behind b cw') else cw' = cw"
proof (cases "next_frame (m_rxBuf (fst cw))")
  case (Item payload rest)
  let ?cw0 = "with_buf rest cw"
  have h: "handle_frame S api payload ?cw0 = Some (goon, cw')"
    using assms(1) Item by (simp add: ready_round_def with_buf_def)
  have ok: "only_writes (fst ?cw0) (fst cw')" "conn_ok (fst ?cw0)"
    using assms(2,3) by (simp_all add: only_writes_def conn_ok_def)
  have "with_buf rest ?cw0 = ?cw0" by (cases cw) simp
  then have "with_buf rest cw' = cw'" using buf_frame [OF h ok, of rest] h by simp
  then have r: "m_rxBuf (fst cw') = rest" by (metis EspHomeDevice.select_convs(4) EspHomeDevice.surjective EspHomeDevice.update_convs(4) with_buf_simps(2))
  have "next_frame (m_rxBuf (fst cw) @ b) = Item payload (rest @ b)" using Item by (rule frames.item_append)
  then have "ready_round S api (behind b cw) = handle_frame S api payload (with_buf (rest @ b) ?cw0)"
    by (simp add: ready_round_def with_buf_def on_conn_def)
  then show ?thesis using buf_frame [OF h ok, of "rest @ b"] r by simp
next
  case (Reject x)
  have "\<not> only_writes (fst cw) (fst (sock_down S DisconnectFromHost cw))"
    by (rule closing [of api]) simp
  then show ?thesis using assms(1,2) Reject by (auto simp: ready_round_def)
qed (use assms(1) in \<open>simp add: ready_round_def\<close>)

lemma loop_talks: "ready_loop S api cw = Some cw' \<Longrightarrow> talks api (fst cw) (fst cw')"
  using fine_loop [of S api cw cw'] by (simp add: fine_def steady_def)

text \<open>A call that returns without closing could as well have met the next chunk.\<close>

lemma loop_behind:
  "ready_loop S api cw = Some cw' \<Longrightarrow> only_writes (fst cw) (fst cw') \<Longrightarrow> conn_ok (fst cw) \<Longrightarrow>
     ready_loop S api (behind b cw) = ready_loop S api (behind b cw')"
proof (induction "length (m_rxBuf (fst cw))" arbitrary: cw rule: less_induct)
  case less
  show ?case
  proof (cases "m_rxBuf (fst cw) = []")
    case True
    then show ?thesis using less.prems(1) by (simp add: ready_loop.simps [of S api cw])
  next
    case ne: False
    with less.prems(1) obtain goon cw1 where r: "ready_round S api cw = Some (goon, cw1)"
      and c: "if goon then ready_loop S api cw1 = Some cw' else cw' = cw1"
      by (auto simp: ready_loop.simps [of S api cw] split: option.splits prod.splits if_splits)
    have f: "talks api (fst cw) (fst cw1)" "conn_ok (fst cw1)"
      using fine_round [OF r] less.prems(3) by (simp_all add: fine_def steady_def)
    have "talks api (fst cw1) (fst cw')" using c loop_talks [of S api cw1 cw'] by (cases goon) simp_all
    then have w: "only_writes (fst cw) (fst cw1)" "only_writes (fst cw1) (fst cw')"
      using only_writes_split [OF less.prems(2) f(1)] by simp_all
    note b = round_behind [OF r w(1) less.prems(3), of b]
    show ?thesis
    proof (cases goon)
      case True
      then have r1: "ready_round S api cw = Some (True, cw1)" "ready_loop S api cw1 = Some cw'" using r c by simp_all
      have "ready_loop S api (behind b cw) = ready_loop S api (behind b cw1)"
        using b True ne by (simp add: ready_loop.simps [of S api "behind b cw"])
      also have "\<dots> = ready_loop S api (behind b cw')"
        by (rule less.hyps [OF round_shortens [OF r1(1)] r1(2) w(2) f(2)])
      finally show ?thesis .
    qed (use b c in simp)
  qed
qed

text \<open>Chunk after chunk, each received when the call for the one before has returned.\<close>

fun receive_all :: "service \<Rightarrow> ('h, 'c) noise_api \<Rightarrow> bytes list \<Rightarrow> ('h, 'c) sys \<Rightarrow> ('h, 'c) sys option" where
  "receive_all S api [] cw = Some cw"
| "receive_all S api (d # ds) cw = Option.bind (onReadyRead S api d cw) (receive_all S api ds)"

lemma receive_buf: "onReadyRead S api d cw = ready_loop S api (behind d cw)"
  by (simp add: onReadyRead_def with_buf_def on_conn_def)

lemma receive_two:
  assumes "onReadyRead S api a cw = Some cw1" "only_writes (fst cw) (fst cw1)" "conn_ok (fst cw)"
  shows "onReadyRead S api (a @ b) cw = onReadyRead S api b cw1"
proof -
  have "ready_loop S api (behind b (behind a cw)) = ready_loop S api (behind b cw1)"
    by (rule loop_behind) (use assms in \<open>simp_all add: receive_buf only_writes_def conn_ok_def\<close>)
  then show ?thesis by (simp add: receive_buf with_buf_def on_conn_def)
qed

lemma receive_talks: "receive_all S api ds cw = Some cw' \<Longrightarrow> talks api (fst cw) (fst cw')"
proof (induction ds arbitrary: cw)
  case (Cons d ds)
  then obtain cw1 where 1: "onReadyRead S api d cw = Some cw1" "receive_all S api ds cw1 = Some cw'"
    by (auto simp: Option.bind_eq_Some_conv)
  have "talks api (fst cw) (fst cw1)" using fine_data [OF 1(1)] by (simp add: fine_def steady_def)
  then show ?case using Cons.IH [OF 1(2)] by (rule talks_trans)
qed simp

lemma receive_concat:
  "receive_all S api (d # ds) cw = Some cw' \<Longrightarrow> only_writes (fst cw) (fst cw') \<Longrightarrow> conn_ok (fst cw) \<Longrightarrow>
     onReadyRead S api (concat (d # ds)) cw = Some cw'"
proof (induction ds arbitrary: d cw)
  case (Cons e ds)
  then obtain cw1 where 1: "onReadyRead S api d cw = Some cw1" "receive_all S api (e # ds) cw1 = Some cw'"
    by (auto simp: Option.bind_eq_Some_conv)
  have f: "talks api (fst cw) (fst cw1)" "conn_ok (fst cw1)"
    using fine_data [OF 1(1)] Cons.prems(3) by (simp_all add: fine_def steady_def)
  note w = only_writes_split [OF Cons.prems(2) f(1) receive_talks [OF 1(2)]]
  have "onReadyRead S api (concat (d # e # ds)) cw = onReadyRead S api (concat (e # ds)) cw1"
    using receive_two [OF 1(1) _ Cons.prems(3), of "concat (e # ds)"] w by simp
  then show ?case using Cons.IH [OF 1(2) _ f(2)] w by simp
qed (auto simp: Option.bind_eq_Some_conv)

subsection \<open>Properties\<close>

text \<open>
  C19: How TCP chunks the stream does not matter. If a connection receives bytes in any chunks, one call
  of \<^verbatim>\<open>onReadyRead\<close> after the other, all of which return and none of which closes the socket, then one call with
  all the bytes returns too, and leaves the connection and the rest of the service in the same state,
  the buffer and everything written included.
\<close>

theorem receive_chunking:
  assumes "receive_all S api ds (conn, W) = Some (conn', W')" "ds \<noteq> []" "only_writes conn conn'" "conn_ok conn"
  shows "onReadyRead S api (concat ds) (conn, W) = Some (conn', W')"
  using assms receive_concat [of S api "hd ds" "tl ds" "(conn, W)" "(conn', W')"] by (cases ds) simp_all

lemma receive_chunking_witness:
  "\<exists>conn' W'. onReadyRead example_service toy_api [0x01, 0x00, 0x01, 0x01]
     ((EspHomeDevice_new 0)\<lparr>m_state := ServerHello, m_noise := Some (noise_new toy_api []), sock_open := True, m_handshakeTimer := True\<rparr>,
       example_world) = Some (conn', W') \<and> m_state conn' = NoiseHandshake"
proof -
  let ?S = example_service and ?W = example_world
  let ?c = "(EspHomeDevice_new 0)\<lparr>m_state := ServerHello, m_noise := Some (noise_new toy_api []), sock_open := True, m_handshakeTimer := True\<rparr>"
  let ?c1 = "?c\<lparr>m_rxBuf := [0x01, 0x00]\<rparr>" and ?c2 = "?c\<lparr>m_rxBuf := [0x01, 0x00, 0x01, 0x01]\<rparr>" and ?c3 = "?c\<lparr>m_rxBuf := []\<rparr>"
  have n: "next_frame [0x01, 0x00] = Wait" "next_frame [0x01, 0x00, 0x01, 0x01] = Item [0x01] []"
    by (simp_all add: next_frame_def of_be16_def qba_mid_def)
  obtain W' where a: "adopt_name ?S [0x01] (?c3, ?W) = (?c3, W')"
    using adopt_state [of ?S "[0x01]" "(?c3, ?W)"] by (cases "adopt_name ?S [0x01] (?c3, ?W)") simp
  have r: "ready_round ?S toy_api (?c1, ?W) = Some (False, ?c1, ?W)"
      "ready_round ?S toy_api (?c2, ?W) = Some (True, ?c3\<lparr>m_state := NoiseHandshake\<rparr>, W')"
    using n a by (simp_all add: ready_round_def on_conn_def handle_frame_def)
  have "m_rxBuf ?c = []" by (simp add: EspHomeDevice_new_def)
  then have "receive_all ?S toy_api [[0x01, 0x00], [0x01, 0x01]] (?c, ?W) = Some (?c3\<lparr>m_state := NoiseHandshake\<rparr>, W')"
    using r by (simp add: onReadyRead_def on_conn_def ready_loop.simps)
  moreover have "only_writes ?c (?c3\<lparr>m_state := NoiseHandshake\<rparr>)" by (simp add: only_writes_def)
  moreover have "conn_ok ?c" by (simp add: conn_defs EspHomeDevice_new_def noise_new_def noise_inv_def)
  ultimately have "onReadyRead ?S toy_api (concat [[0x01, 0x00], [0x01, 0x01]]) (?c, ?W) = Some (?c3\<lparr>m_state := NoiseHandshake\<rparr>, W')"
    by (intro receive_chunking) simp_all
  then show ?thesis by simp
qed

end
