(* ===== verification/DebugClient.thy ===== *)
theory DebugClient
  imports Database Entity Names "HOL-Library.Sublist"
begin

text \<open>
  src/tools/debug-client.cpp: the stand-alone client that runs the handshake and the discovery sequence
  against one device and prints every field it receives.

  Its inputs are arguments: the command line, the environment variable, whether the socket connects, and
  the chunks the socket delivers before it stops delivering (a wait that times out or fails ends the
  input). Printing is kept as a list of \<open>line\<close>s, writing as a list of byte strings. The result is the
  exit code; \<open>None\<close> when the protobuf decoder does not return.
\<close>

definition msgTypeName :: "quint16 \<Rightarrow> string" where
  "msgTypeName t =
     (if t = 1 then ''HelloRequest''
      else if t = 2 then ''HelloResponse''
      else if t = 3 then ''ConnectRequest''
      else if t = 4 then ''ConnectResponse''
      else if t = 5 then ''DisconnectRequest''
      else if t = 6 then ''DisconnectResponse''
      else if t = 7 then ''PingRequest''
      else if t = 8 then ''PingResponse''
      else if t = 9 then ''DeviceInfoRequest''
      else if t = 10 then ''DeviceInfoResponse''
      else if t = 11 then ''ListEntitiesRequest''
      else if t = 12 then ''ListEntitiesBinarySensorResponse''
      else if t = 13 then ''ListEntitiesCoverResponse''
      else if t = 14 then ''ListEntitiesFanResponse''
      else if t = 15 then ''ListEntitiesLightResponse''
      else if t = 16 then ''ListEntitiesSensorResponse''
      else if t = 17 then ''ListEntitiesSwitchResponse''
      else if t = 18 then ''ListEntitiesTextSensorResponse''
      else if t = 19 then ''ListEntitiesDoneResponse''
      else if t = 20 then ''SubscribeStatesRequest''
      else if t = 21 then ''BinarySensorStateResponse''
      else if t = 22 then ''CoverStateResponse''
      else if t = 23 then ''FanStateResponse''
      else if t = 24 then ''LightStateResponse''
      else if t = 25 then ''SensorStateResponse''
      else if t = 26 then ''SwitchStateResponse''
      else if t = 27 then ''TextSensorStateResponse''
      else if t = 46 then ''ListEntitiesClimateResponse''
      else if t = 47 then ''ClimateStateResponse''
      else if t = 49 then ''ListEntitiesNumberResponse''
      else if t = 50 then ''NumberStateResponse''
      else if t = 52 then ''ListEntitiesSelectResponse''
      else if t = 53 then ''SelectStateResponse''
      else if t = 58 then ''ListEntitiesLockResponse''
      else if t = 59 then ''LockStateResponse''
      else if t = 61 then ''ListEntitiesButtonResponse''
      else ''?'')"

datatype field_dump =
    DumpVarint int quint64
  | DumpBytes int nat "string option" bytes
  | DumpFixed int quint32 fp
  | DumpUnhandled int int

datatype line =
    Usage | NoKey | BadKey nat | ConnectingTo string quint16 | ConnectFailed | TcpConnected
  | BadIndicator byte | HelloTimeout | BadHello | ServerName string | ResponseTimeout | Rejected string
  | HandshakeFailed | HandshakeComplete | MessageType quint16 string | FieldCount nat nat | Field field_dump
  | EntitiesTotal nat nat | NoFurtherStates nat | MessageTimeout | DecryptionFailed | StatesTotal nat

definition printable :: "string \<Rightarrow> bool" where
  "printable s = list_all (\<lambda>c. \<not> ((of_char c :: nat) < 0x20 \<and> c \<noteq> CHR 0x09)) s"

definition dump_field :: "env \<Rightarrow> ProtoField \<Rightarrow> field_dump" where
  "dump_field E f =
     (if m_wireType f = 0 then DumpVarint (m_field f) (m_varint f)
      else if m_wireType f = 2 then
        (let asString = f_string E f in
         DumpBytes (m_field f) (length (m_raw f)) (if printable asString \<and> asString \<noteq> [] then Some asString else None) (m_raw f))
      else if m_wireType f = 5 then DumpFixed (m_field f) (f_fixed32 f) (f_floatVal f)
      else DumpUnhandled (m_field f) (m_wireType f))"

definition dumpFields :: "env \<Rightarrow> bytes \<Rightarrow> line list option" where
  "dumpFields E payload =
     map_option (\<lambda>fields. FieldCount (length fields) (length payload) # map (\<lambda>f. Field (dump_field E f)) fields)
       (decode payload)"

subsection \<open>Reading frames\<close>

text \<open>\<^verbatim>\<open>tryExtractFrame\<close> cuts as the service's receive loop does; a bad indicator exits the process.\<close>

definition tryExtractFrame :: "bytes \<Rightarrow> bytes split" where
  "tryExtractFrame buf =
     (if length buf < 3 then Wait
      else if buf ! 0 \<noteq> 0x01 then Reject (buf ! 0)
      else let frameSize = of_be16 (buf ! 1) (buf ! 2) in
        if length buf < 3 + unat frameSize then Wait
        else Item (qba_mid buf 3 (uint frameSize)) (drop (3 + unat frameSize) buf))"

datatype read_result = Got bytes bytes "bytes list" | TimedOut bytes | Exit byte

fun readFrame :: "bytes \<Rightarrow> bytes list \<Rightarrow> read_result" where
  "readFrame buf [] =
     (case tryExtractFrame buf of Item p r \<Rightarrow> Got p r [] | Reject b \<Rightarrow> Exit b | Wait \<Rightarrow> TimedOut buf)"
| "readFrame buf (c # cs) =
     (case tryExtractFrame buf of Item p r \<Rightarrow> Got p r (c # cs) | Reject b \<Rightarrow> Exit b | Wait \<Rightarrow> readFrame (buf @ c) cs)"

lemma extract_next: "tryExtractFrame buf = next_frame buf"
  by (simp add: tryExtractFrame_def next_frame_def)

lemma readFrame_shrinks:
  "readFrame buf cs = Got p r cs' \<Longrightarrow> length r + length (concat cs') < length buf + length (concat cs)"
proof (induction buf cs rule: readFrame.induct)
  case (1 buf)
  then show ?case using frames.item_shrinks by (auto simp: extract_next split: split.splits)
next
  case (2 buf c cs)
  show ?case
  proof (cases "next_frame buf")
    case (Item q s)
    then show ?thesis using "2.prems" frames.item_shrinks [OF Item] by (auto simp: extract_next)
  qed (use 2 in \<open>auto simp: extract_next\<close>)
qed

subsection \<open>The session\<close>

record ('h, 'c) client =
  cl_buffer :: bytes
  cl_input :: "bytes list"
  cl_noise :: "('h, 'c) NoiseNNpsk0"
  cl_sent :: "bytes list"
  cl_out :: "line list"
  sensorCount :: nat
  listEntitiesTotal :: nat
  stateCount :: nat
  subscribed :: bool

definition print :: "line list \<Rightarrow> ('h, 'c) client \<Rightarrow> ('h, 'c) client" where
  "print ls st = st\<lparr>cl_out := cl_out st @ ls\<rparr>"

definition write_raw :: "bytes \<Rightarrow> ('h, 'c) client \<Rightarrow> ('h, 'c) client" where
  "write_raw d st = st\<lparr>cl_sent := cl_sent st @ [d]\<rparr>"

definition client_sendFrame :: "bytes \<Rightarrow> ('h, 'c) client \<Rightarrow> ('h, 'c) client" where
  "client_sendFrame payload = write_raw (frame_of payload)"

definition client_sendMessage ::
  "('h, 'c) noise_api \<Rightarrow> quint16 \<Rightarrow> bytes \<Rightarrow> ('h, 'c) client \<Rightarrow> ('h, 'c) client" where
  "client_sendMessage api mtype body st =
     (case encrypt api (message_inner mtype body) (cl_noise st) of
        (n', encrypted) \<Rightarrow> client_sendFrame encrypted (st\<lparr>cl_noise := n'\<rparr>))"

definition client_dispatch ::
  "('h, 'c) noise_api \<Rightarrow> quint16 \<Rightarrow> ('h, 'c) client \<Rightarrow> ('h, 'c) client" where
  "client_dispatch api mtype st =
     (if mtype = 2 then client_sendMessage api 9 [] st
      else if mtype = 10 then client_sendMessage api 11 [] st
      else if mtype = 16 then st\<lparr>sensorCount := sensorCount st + 1, listEntitiesTotal := listEntitiesTotal st + 1\<rparr>
      else if mtype \<in> {12, 13, 15, 17, 18, 46, 49, 52, 58, 61} then st\<lparr>listEntitiesTotal := listEntitiesTotal st + 1\<rparr>
      else if mtype = 19 then
        (client_sendMessage api 20 [] (print [EntitiesTotal (listEntitiesTotal st) (sensorCount st)] st))\<lparr>subscribed := True\<rparr>
      else if mtype \<in> {21, 22, 23, 24, 25, 26, 27, 47, 50, 53, 59} then st\<lparr>stateCount := stateCount st + 1\<rparr>
      else st)"

definition client_message ::
  "env \<Rightarrow> ('h, 'c) noise_api \<Rightarrow> quint16 \<Rightarrow> bytes \<Rightarrow> ('h, 'c) client \<Rightarrow> ('h, 'c) client option" where
  "client_message E api mtype data st =
     map_option (\<lambda>dump. client_dispatch api mtype (print (MessageType mtype (msgTypeName mtype) # dump) st))
       (dumpFields E data)"

definition finish :: "line \<Rightarrow> ('h, 'c) client \<Rightarrow> ('h, 'c) client" where
  "finish l st = print [l, StatesTotal (stateCount st)] st"

lemma sendMessage_input [simp]:
  "cl_buffer (client_sendMessage api t d st) = cl_buffer st" "cl_input (client_sendMessage api t d st) = cl_input st"
  by (simp_all add: client_sendMessage_def client_sendFrame_def write_raw_def prod.case_eq_if)

lemma print_input [simp]:
  "cl_buffer (print ls st) = cl_buffer st" "cl_input (print ls st) = cl_input st" "stateCount (print ls st) = stateCount st"
  by (simp_all add: print_def)

lemma dispatch_input [simp]:
  "cl_buffer (client_dispatch api t st) = cl_buffer st" "cl_input (client_dispatch api t st) = cl_input st"
  by (simp_all add: client_dispatch_def if_distrib [of cl_buffer] if_distrib [of cl_input] del: insert_iff)

lemma message_input:
  assumes "client_message E api t d st = Some st'"
  shows "cl_buffer st' = cl_buffer st \<and> cl_input st' = cl_input st"
  using assms by (auto simp: client_message_def)

function client_loop :: "env \<Rightarrow> ('h, 'c) noise_api \<Rightarrow> ('h, 'c) client \<Rightarrow> (int \<times> ('h, 'c) client) option" where
  "client_loop E api st =
     (case readFrame (cl_buffer st) (cl_input st) of
        Exit b \<Rightarrow> Some (1, print [BadIndicator b] st)
      | TimedOut buf \<Rightarrow>
          Some (0, finish (if subscribed st then NoFurtherStates (stateCount st) else MessageTimeout) st)
      | Got payload buf input \<Rightarrow>
          (case decrypt api payload (cl_noise st) of
             (n', plaintext) \<Rightarrow>
               let st1 = st\<lparr>cl_buffer := buf, cl_input := input, cl_noise := n'\<rparr> in
               if plaintext = [] then Some (0, finish DecryptionFailed st1)
               else if length plaintext < 4 then client_loop E api st1
               else (case parse_inner plaintext of
                       (mtype, data) \<Rightarrow>
                         (case client_message E api mtype data st1 of
                            None \<Rightarrow> None
                          | Some st2 \<Rightarrow> client_loop E api st2))))"
  by pat_completeness auto
termination
  by (relation "measure (\<lambda>(E, api, st). length (cl_buffer st) + length (concat (cl_input st)))")
    (auto dest!: readFrame_shrinks message_input simp del: length_concat)

declare client_loop.simps [simp del]

definition await ::
  "line \<Rightarrow> ('h, 'c) client \<Rightarrow> int \<times> ('h, 'c) client + bytes \<times> ('h, 'c) client" where
  "await l st =
     (case readFrame (cl_buffer st) (cl_input st) of
        Got payload buf input \<Rightarrow> Inr (payload, st\<lparr>cl_buffer := buf, cl_input := input\<rparr>)
      | TimedOut buf \<Rightarrow> Inl (1, print [l] st)
      | Exit b \<Rightarrow> Inl (1, print [BadIndicator b] st))"

definition server_name :: "env \<Rightarrow> bytes \<Rightarrow> string" where
  "server_name E serverHello =
     (let nameEnd = 1 + index_of 0x00 (drop 1 serverHello)
      in from_utf8 E (qba_mid serverHello 1 (if 1 < nameEnd then nameEnd - 1 else -1)))"

definition client_handshake ::
  "env \<Rightarrow> ('h, 'c) noise_api \<Rightarrow> ('h, 'c) client \<Rightarrow> int \<times> ('h, 'c) client + ('h, 'c) client" where
  "client_handshake E api st =
     (case writeHandshake api (cl_noise st) of
        (n', handshakeData) \<Rightarrow>
          (case await HelloTimeout
                  (client_sendFrame (0x00 # handshakeData) ((write_raw [0x01, 0x00, 0x00] st)\<lparr>cl_noise := n'\<rparr>)) of
             Inl r \<Rightarrow> Inl r
           | Inr (serverHello, st1) \<Rightarrow>
               if serverHello = [] \<or> serverHello ! 0 \<noteq> 0x01 then Inl (1, print [BadHello] st1)
               else
                 (case await ResponseTimeout (print [ServerName (server_name E serverHello)] st1) of
                       Inl r \<Rightarrow> Inl r
                     | Inr (noiseResponse, st2) \<Rightarrow>
                         if noiseResponse = [] \<or> noiseResponse ! 0 \<noteq> 0x00
                         then Inl (1, print [Rejected (from_utf8 E (qba_mid noiseResponse 1 (-1)))] st2)
                         else (case readHandshake api (qba_mid noiseResponse 1 (-1)) (cl_noise st2) of
                                 (n'', ok) \<Rightarrow>
                                   if \<not> ok then Inl (1, print [HandshakeFailed] (st2\<lparr>cl_noise := n''\<rparr>))
                                   else Inr (print [HandshakeComplete] (st2\<lparr>cl_noise := n''\<rparr>))))))"

definition client_hello :: "env \<Rightarrow> bytes" where
  "client_hello E = addVarint 3 14 (addVarint 2 1 (addString (to_utf8 E) 1 ''esphome-debug-client'' []))"

definition client_session :: "env \<Rightarrow> ('h, 'c) noise_api \<Rightarrow> ('h, 'c) client \<Rightarrow> (int \<times> ('h, 'c) client) option" where
  "client_session E api st =
     (case client_handshake E api st of
        Inl r \<Rightarrow> Some r
      | Inr st' \<Rightarrow> client_loop E api (client_sendMessage api 1 (client_hello E) st'))"

text \<open>
  \<^verbatim>\<open>main\<close>: \<open>args\<close> is the command line after the program's name, \<open>key\<close> the environment variable.
\<close>

definition client_main ::
  "env \<Rightarrow> ('h, 'c) noise_api \<Rightarrow> string list \<Rightarrow> bytes option \<Rightarrow> bool \<Rightarrow> bytes list \<Rightarrow>
     (int \<times> line list \<times> bytes list) option" where
  "client_main E api args key reachable input =
     (case args of
        [] \<Rightarrow> Some (1, [Usage], [])
      | host # opts \<Rightarrow>
          let port = (case opts of [] \<Rightarrow> 6053 | p # _ \<Rightarrow> word_of_nat (case qs_toUInt p of None \<Rightarrow> 0 | Some n \<Rightarrow> n));
              psk = (case key of None \<Rightarrow> [] | Some k \<Rightarrow> from_base64 E k)
          in if key = None \<or> key = Some [] then Some (1, [NoKey], [])
             else if length psk \<noteq> 32 then Some (1, [BadKey (length psk)], [])
             else if \<not> reachable then Some (1, [ConnectingTo host port, ConnectFailed], [])
             else map_option (\<lambda>(code, st). (code, cl_out st, cl_sent st))
                    (client_session E api
                       \<lparr>cl_buffer = [], cl_input = input, cl_noise = noise_new api psk, cl_sent = [],
                        cl_out = [ConnectingTo host port, TcpConnected], sensorCount = 0, listEntitiesTotal = 0,
                        stateCount = 0, subscribed = False\<rparr>))"

subsection \<open>What the client reads and what it writes\<close>

text \<open>All the frames that repeated calls of \<^verbatim>\<open>readFrame\<close> return, and what is left in the buffer.\<close>

function read_frames :: "bytes \<Rightarrow> bytes list \<Rightarrow> bytes list \<times> bytes" where
  "read_frames buf cs =
     (case readFrame buf cs of
        Got p r cs' \<Rightarrow> (case read_frames r cs' of (ps, rest) \<Rightarrow> (p # ps, rest))
      | TimedOut b \<Rightarrow> ([], b)
      | Exit x \<Rightarrow> ([], buf @ concat cs))"
  by pat_completeness auto
termination
  by (relation "measure (\<lambda>(buf, cs). length buf + length (concat cs))")
    (auto dest!: readFrame_shrinks simp del: length_concat)

declare read_frames.simps [simp del]

lemma readFrame_split:
  "split_all next_frame (buf @ concat cs) =
     (case readFrame buf cs of
        Got p r cs' \<Rightarrow>
          (p # fst (split_all next_frame (r @ concat cs')), snd (split_all next_frame (r @ concat cs')))
      | TimedOut b \<Rightarrow> ([], b)
      | Exit x \<Rightarrow> ([], buf @ concat cs))"
proof (induction buf cs rule: readFrame.induct)
  case (1 buf)
  show ?case
    by (cases "next_frame buf") (auto simp: extract_next frames.split_all_Item frames.split_all_stop)
next
  case (2 buf c cs)
  show ?case
  proof (cases "next_frame buf")
    case Wait
    then show ?thesis using 2 by (simp add: extract_next split: read_result.split)
  next
    case (Reject x)
    then show ?thesis
      using frames.reject_append [OF Reject, of "c @ concat cs"] by (simp add: extract_next frames.split_all_stop)
  next
    case (Item p r)
    then show ?thesis
      using frames.item_append [OF Item, of "c @ concat cs"] by (simp add: extract_next frames.split_all_Item)
  qed
qed

definition grows :: "('h, 'c) client \<Rightarrow> ('h, 'c) client \<Rightarrow> bool" where
  "grows st st' = (prefix (cl_sent st) (cl_sent st') \<and> prefix (cl_out st) (cl_out st'))"

lemma grows_refl [simp]: "grows st st"
  by (simp add: grows_def)

lemma grows_trans [trans]: "grows a b \<Longrightarrow> grows b c \<Longrightarrow> grows a c"
  by (auto simp: grows_def intro: prefix_order.trans)

lemma grows_steps [simp]:
  "grows st (print ls st)" "grows st (write_raw d st)" "grows st (st\<lparr>cl_buffer := b, cl_input := i\<rparr>)"
  "grows st (st\<lparr>cl_buffer := b, cl_input := i, cl_noise := n\<rparr>)" "grows st (st\<lparr>cl_noise := n\<rparr>)"
  by (simp_all add: grows_def print_def write_raw_def)

lemma grows_sendMessage [simp]: "grows st (client_sendMessage api t d st)"
  by (simp add: grows_def client_sendMessage_def client_sendFrame_def write_raw_def prod.case_eq_if)

lemma grows_print_send: "grows st (client_sendMessage api t d (print ls st))"
  by (rule grows_trans [OF grows_steps(1) grows_sendMessage])

lemma grows_dispatch: "grows st (client_dispatch api t st)"
  using grows_print_send [of st api 20 "[]" "[EntitiesTotal (listEntitiesTotal st) (sensorCount st)]"]
    grows_sendMessage [of st api] grows_refl [of st]
  by (simp add: client_dispatch_def del: insert_iff) (simp add: grows_def)

lemma grows_message:
  assumes "client_message E api t d st = Some st'"
  shows "grows st st'"
  using assms grows_trans [OF grows_steps(1) grows_dispatch] by (auto simp: client_message_def)

lemma finish_grows [simp]: "grows st (finish l st)"
  by (simp add: finish_def)

lemma loop_grows: "client_loop E api st = Some (code, st') \<Longrightarrow> grows st st' \<and> (code = 0 \<or> code = 1)"
proof (induction E api st rule: client_loop.induct)
  case (1 E api st)
  show ?case
  proof (cases "readFrame (cl_buffer st) (cl_input st)")
    case (Got p b i)
    let ?n = "fst (decrypt api p (cl_noise st))" and ?plain = "snd (decrypt api p (cl_noise st))"
    let ?st1 = "st\<lparr>cl_buffer := b, cl_input := i, cl_noise := ?n\<rparr>"
    have dec: "(?n, ?plain) = decrypt api p (cl_noise st)" by simp
    have g1: "grows st ?st1" by simp
    consider "?plain = []" | "?plain \<noteq> []" "length ?plain < 4" | "?plain \<noteq> []" "\<not> length ?plain < 4" by blast
    then show ?thesis
    proof cases
      case 1
      then show ?thesis using "1.prems" Got grows_trans [OF g1 finish_grows]
        by (auto simp: client_loop.simps [of E api st] prod.case_eq_if Let_def)
    next
      case 2
      then have "client_loop E api ?st1 = Some (code, st')"
        using "1.prems" Got by (simp add: client_loop.simps [of E api st] prod.case_eq_if Let_def)
      then show ?thesis using "1.IH"(1) [OF Got dec refl] 2 grows_trans [OF g1] by blast
    next
      case 3
      have parse: "(fst (parse_inner ?plain), snd (parse_inner ?plain)) = parse_inner ?plain" by simp
      obtain st2 where m: "client_message E api (fst (parse_inner ?plain)) (snd (parse_inner ?plain)) ?st1 = Some st2"
        and l: "client_loop E api st2 = Some (code, st')"
        using "1.prems" Got 3
        by (auto simp: client_loop.simps [of E api st] prod.case_eq_if Let_def split: option.splits)
      show ?thesis
        using "1.IH"(2) [OF Got dec refl 3 parse m l] grows_trans [OF grows_trans [OF g1 grows_message [OF m]]]
        by blast
    qed
  qed (use "1.prems" in \<open>auto simp: client_loop.simps [of E api st]\<close>)
qed

text \<open>Waiting for a frame takes the next one off the stream, or prints and leaves.\<close>

definition stream :: "('h, 'c) client \<Rightarrow> bytes list" where
  "stream st = fst (split_all next_frame (cl_buffer st @ concat (cl_input st)))"

lemma await_cases:
  "(\<exists>st'. await l st = Inl (1, st') \<and> cl_sent st' = cl_sent st) \<or>
   (\<exists>p st'. await l st = Inr (p, st') \<and> cl_sent st' = cl_sent st \<and> cl_noise st' = cl_noise st \<and> stream st = p # stream st')"
  using readFrame_split [of "cl_buffer st" "cl_input st"]
  by (auto simp: await_def stream_def print_def split: read_result.split)

text \<open>
  The handshake: what was sent before, the greeting, and, if it succeeded, the server's two frames, of
  which the second holds its handshake message.
\<close>

definition shaken :: "('h, 'c) noise_api \<Rightarrow> ('h, 'c) NoiseNNpsk0 \<Rightarrow> bytes list \<Rightarrow> ('h, 'c) NoiseNNpsk0 \<Rightarrow> bool" where
  "shaken api m frames n = (\<exists>p q rest. frames = p # q # rest \<and> p \<noteq> [] \<and> p ! 0 = 0x01 \<and> q \<noteq> [] \<and> q ! 0 = 0x00 \<and>
     readHandshake api (qba_mid q 1 (-1)) m = (n, True))"

lemma handshake_result:
  fixes st :: "('h, 'c) client" and api :: "('h, 'c) noise_api"
  defines "h \<equiv> cl_sent st @ [[0x01, 0x00, 0x00], frame_of (0x00 # snd (writeHandshake api (cl_noise st)))]"
  shows "case client_handshake E api st of
           Inl (code, st') \<Rightarrow> code = 1 \<and> cl_sent st' = h
         | Inr st' \<Rightarrow> cl_sent st' = h \<and> HandshakeComplete \<in> set (cl_out st') \<and>
             shaken api (fst (writeHandshake api (cl_noise st))) (stream st) (cl_noise st')"
proof -
  let ?st0 = "client_sendFrame (0x00 # snd (writeHandshake api (cl_noise st)))
      ((write_raw [0x01, 0x00, 0x00] st)\<lparr>cl_noise := fst (writeHandshake api (cl_noise st))\<rparr>)"
  have 0: "cl_sent ?st0 = h" "cl_noise ?st0 = fst (writeHandshake api (cl_noise st))" "stream ?st0 = stream st"
    by (simp_all add: h_def client_sendFrame_def write_raw_def stream_def)
  have out: "cl_sent (print l s) = cl_sent s" "cl_noise (print l s) = cl_noise s" "stream (print l s) = stream s"
    for l and s :: "('h, 'c) client"
    by (simp_all add: print_def stream_def)
  consider (no) st1 where "await HelloTimeout ?st0 = Inl (1, st1)" "cl_sent st1 = h"
    | (yes) p st1 where "await HelloTimeout ?st0 = Inr (p, st1)" "cl_sent st1 = h" "cl_noise st1 = cl_noise ?st0"
        "stream ?st0 = p # stream st1"
    using await_cases [of HelloTimeout ?st0] 0(1) by auto
  then show ?thesis
  proof cases
    case no
    then show ?thesis by (simp add: client_handshake_def prod.case_eq_if)
  next
    case (yes p st1)
    let ?st2 = "print [ServerName (server_name E p)] st1"
    consider (no2) st3 where "await ResponseTimeout ?st2 = Inl (1, st3)" "cl_sent st3 = h"
      | (yes2) q st3 where "await ResponseTimeout ?st2 = Inr (q, st3)" "cl_sent st3 = h" "cl_noise st3 = cl_noise ?st0"
          "stream st1 = q # stream st3"
      using await_cases [of ResponseTimeout ?st2] yes out by auto
    then show ?thesis
    proof cases
      case no2
      then show ?thesis using yes by (simp add: client_handshake_def prod.case_eq_if out)
    next
      case (yes2 q st3)
      obtain n ok where r: "readHandshake api (qba_mid q 1 (-1)) (fst (writeHandshake api (cl_noise st))) = (n, ok)"
        by (cases "readHandshake api (qba_mid q 1 (-1)) (fst (writeHandshake api (cl_noise st)))")
      have s: "stream st = p # q # stream st3" using yes(4) yes2(4) 0(3) by simp
      have n3: "cl_noise st3 = fst (writeHandshake api (cl_noise st))" using yes2(3) 0(2) by simp
      show ?thesis
        unfolding shaken_def s
        using yes(1,2) yes2(1,2) r by (simp add: client_handshake_def prod.case_eq_if n3 out) (simp add: print_def)
    qed
  qed
qed

lemma session_result:
  fixes st :: "('h, 'c) client"
  assumes "client_session E api st = Some (code, st')" "cl_sent st = []"
  defines "h \<equiv> [[0x01, 0x00, 0x00], frame_of (0x00 # snd (writeHandshake api (cl_noise st)))]"
  shows "prefix h (cl_sent st') \<and> (code = 0 \<or> code = 1) \<and>
    (code = 0 \<longrightarrow> (\<exists>n. shaken api (fst (writeHandshake api (cl_noise st))) (stream st) n \<and>
       prefix (h @ [frame_of (snd (encrypt api (message_inner 1 (client_hello E)) n))]) (cl_sent st')))"
proof (cases "client_handshake E api st")
  case (Inl r)
  then show ?thesis
    using assms handshake_result [where E = E and api = api and st = st] by (cases r) (auto simp: client_session_def)
next
  case (Inr st1)
  let ?st2 = "client_sendMessage api 1 (client_hello E) st1"
  have h: "cl_sent st1 = h" "shaken api (fst (writeHandshake api (cl_noise st))) (stream st) (cl_noise st1)"
    using handshake_result [where E = E and api = api and st = st] Inr assms(2) by (simp_all add: h_def)
  have s: "cl_sent ?st2 = h @ [frame_of (snd (encrypt api (message_inner 1 (client_hello E)) (cl_noise st1)))]"
    by (simp add: client_sendMessage_def client_sendFrame_def write_raw_def prod.case_eq_if h(1))
  have l: "client_loop E api ?st2 = Some (code, st')"
    using assms(1) Inr by (simp add: client_session_def)
  have "prefix (cl_sent ?st2) (cl_sent st')" "code = 0 \<or> code = 1" using loop_grows [OF l] by (simp_all add: grows_def)
  then show ?thesis using h(2) unfolding s by (auto dest: append_prefixD)
qed

subsection \<open>Properties\<close>

text \<open>
  C37: The blocking reader of the debug client and the receive loop of the service agree. However the
  device's stream is split into reads, the payloads that successive calls of \<^verbatim>\<open>readFrame\<close> return are the
  frames the service's splitting cuts off the whole stream, in that order, with the same rest left over.
\<close>

theorem reader_agrees: "read_frames buf cs = split_all next_frame (buf @ concat cs)"
proof (induction buf cs rule: read_frames.induct)
  case (1 buf cs)
  show ?case
    using 1 by (subst read_frames.simps, subst readFrame_split) (auto split: read_result.split prod.split)
qed

text \<open>
  C38: The debug client writes either nothing or, first, the empty client hello and the handshake frame.
  Its exit code is 0 or 1. It is 0 only if the first frame the device sent is a server hello, the
  second one holds a message with which the handshake started with the given key succeeds, and the
  third thing written is the client's hello message, encrypted under that handshake.
\<close>

theorem client_greets_first:
  assumes "client_main E api args key reachable input = Some (code, ls, sent)"
  shows "let hs = writeHandshake api (noise_new api (from_base64 E (the key)));
      greeting = [[0x01, 0x00, 0x00], frame_of (0x00 # snd hs)] in
    (sent = [] \<or> prefix greeting sent) \<and> (code = 0 \<or> code = 1) \<and>
    (code = 0 \<longrightarrow> (\<exists>n. shaken api (fst hs) (fst (split_all next_frame (concat input))) n \<and>
       prefix (greeting @ [frame_of (snd (encrypt api (message_inner 1 (client_hello E)) n))]) sent))"
proof (cases "\<exists>host opts k. args = host # opts \<and> key = Some k \<and> k \<noteq> [] \<and> length (from_base64 E k) = 32 \<and> reachable")
  case True
  then obtain st st' where "client_session E api st = Some (code, st')" "ls = cl_out st'" "sent = cl_sent st'"
      "cl_sent st = []" "cl_noise st = noise_new api (from_base64 E (the key))" "stream st = fst (split_all next_frame (concat input))"
    using assms by (auto simp: client_main_def stream_def Let_def)
  then show ?thesis using session_result [of E api st code st'] by (simp add: Let_def)
next
  case False
  then show ?thesis
    using assms by (cases args; cases key) (auto simp: client_main_def Let_def split: if_splits)
qed

lemma client_greets_first_witness:
  "\<exists>ls sent. client_main ascii_env toy_api [''host''] (Some (replicate 32 7)) True
      [frame_of [1, 97, 0] @ [1], [0, 2, 0, 7]] = Some (0, ls, sent) \<and> 3 \<le> length sent"
proof -
  let ?run = "client_main ascii_env toy_api [''host''] (Some (replicate 32 7)) True [frame_of [1, 97, 0] @ [1], [0, 2, 0, 7]]"
  have "map_option fst ?run = Some 0" by code_simp
  then obtain ls sent where run: "?run = Some (0, ls, sent)" by auto
  then show ?thesis using client_greets_first [OF run] run by (auto simp: Let_def dest: prefix_length_le)
qed

end
