(* ===== verification/Spec2Isabelle.thy ===== *)
theory Spec2Isabelle
  imports System Chunks DebugClient Names
begin

text \<open>
  A verification library for homed-service-esphome: a Qt service (C++, under src/) that keeps an
  encrypted connection to every configured ESPHome device, discovers the device's entities, and mirrors
  their states and commands to an MQTT broker; and the debug client beside it (src/tools/).

  \<^bold>\<open>The program's parts and the theories.\<close> The controller (controller.cpp) owns the device list (device.cpp) and
  the connection manager; the manager (end of esphome.cpp) keeps one connection per main device; a connection
  (the rest of esphome.cpp) runs the Noise handshake (noise.cpp) over a TCP socket, then exchanges protobuf
  messages (proto.cpp) in encrypted frames. Signals are direct calls: a connection that emits one runs the
  controller's slot at once. The theories follow that order, each on the ones above it:

  \<^item> \<open>Prelude\<close>: C++ and Qt values shared by all: byte arrays, \<^verbatim>\<open>mid\<close>, wrapping \<^verbatim>\<open>int\<close>, \<^verbatim>\<open>QMap\<close> as a sorted
    association list with its contract as a locale.
  \<^item> \<open>Fp\<close>: float and double with round-to-nearest-even, as the levels, colours and temperatures need.
  \<^item> \<open>Proto\<close> (proto.h, proto.cpp): \<^verbatim>\<open>ProtoEncoder\<close>, \<^verbatim>\<open>ProtoDecoder\<close>. \<open>decode_loop\<close> is a \<^verbatim>\<open>while\<close> loop that need not
    end, so it is a partial function to an option, where \<open>None\<close> is not returning (or an access outside the array).
  \<^item> \<open>Noise\<close> (noise.h, noise.cpp): \<^verbatim>\<open>NoiseNNpsk0\<close> over the record \<open>noise_api\<close> of noise-c's functions.
  \<^item> \<open>Framing\<close>: frames and inner messages; the locale \<open>splitter\<close> is the contract of cutting items off a stream.
  \<^item> \<open>Platform\<close>: JSON and variant values, and the record \<open>env\<close> of library functions without a source here.
  \<^item> \<open>Names\<close>: \<^verbatim>\<open>camelCase\<close>, \<^verbatim>\<open>haSafeId\<close>, \<^verbatim>\<open>subDeviceAddressSuffix\<close> and the climate tables.
  \<^item> \<open>Device\<close>, \<open>Database\<close> (device.h, device.cpp): the objects, the list, and its JSON file. \<^verbatim>\<open>QSharedPointer\<close>
    aliasing is a store: a device is a reference into \<open>objs\<close>, the list holds references.
  \<^item> \<open>Publish\<close> (controller.cpp): topics, exposes, Home Assistant configs, states, and the slots of the signals.
    The state \<open>world\<close> is the device list, the timers' flags, the broker's status, the clock and all output.
  \<^item> \<open>Entity\<close>, \<open>Discovery\<close>, \<open>StateUpdate\<close>, \<open>Command\<close> (esphome.cpp): \<^verbatim>\<open>processEntityInfo\<close>,
    \<^verbatim>\<open>applyDiscoveredEntities\<close>, \<^verbatim>\<open>processStateUpdate\<close>, \<^verbatim>\<open>sendCommand\<close>.
  \<^item> \<open>Connection\<close> (esphome.cpp): the slots and operations of \<^verbatim>\<open>EspHomeDevice\<close> as functions on a connection and
    the world, among them \<^verbatim>\<open>onReadyRead\<close> with its loop. \<open>Lifecycle\<close> closes them under events: \<open>conn_step\<close> is one
    event of the event loop or one public call, \<open>runs\<close> a sequence of them.
  \<^item> \<open>Chunks\<close>: a handler does not depend on what is behind its frame in the buffer, so \<^verbatim>\<open>onReadyRead\<close> does the same however
    TCP chunks the stream.
  \<^item> \<open>Manager\<close>, \<open>Controller\<close>: \<^verbatim>\<open>EspHomeManager\<close>, and the MQTT commands; \<open>service_step\<close> is one event of the service.
  \<^item> \<open>System\<close>: the way of one message through all of these, in both directions, and where the commands of a
    sub-device go; the two properties at the end of this theory put it together.
  \<^item> \<open>DebugClient\<close> (debug-client.cpp): the command-line tool, from its arguments to its exit code.
\<close>

text \<open>
  \<^bold>\<open>What the lemma groups show.\<close>

  \<^item> Codec: decoding inverts encoding; decoding returns on every payload in which no field that is read declares a length
    that is negative as an \<^verbatim>\<open>int\<close> or ends beyond its range, and does not return on a payload where one does; a field
    read makes no \<^verbatim>\<open>at\<close> call outside the array (below 2 GiB less five bytes).
  \<^item> Transport: framing round trips, the receive slot does the same however the stream is chunked, and the debug client
    cuts the same frames; ciphers exist exactly after the handshake.
  \<^item> Connection: an invariant ties state, timers, Noise object and socket together (a closed socket has no Noise object
    and an empty receive buffer); the eight states refine a four-phase life cycle (locale \<open>lifecycle\<close>, interpreted on
    \<open>conn_step\<close>); nothing is up without a completed handshake under the device's key on that very link; all that is ever
    written is the greeting and then frames sealed by the cipher that handshake left (\<open>speaks\<close>); an active
    device is never abandoned; the receive loop ends.
  \<^item> Discovery and database: every entity gets an endpoint of its own, special entities keep their number from one
    discovery to the next, object ids are unique under a stated condition (with a counterexample without it), and a
    restart gives the devices and their entities back, but not the entities' numbers.
  \<^item> States and commands: which endpoint a state message changes, if any, and how (the specification of the lookup is
    \<open>speaks_for\<close> and \<open>has_endpoint\<close>), the values proto3 omits, and for each command the exact message; levels, colours
    and covers' percentages survive the way there and back through single precision.
  \<^item> Controller: an invariant of the whole service, removal with its cascade, addition, and what is retracted.

  Where the code does something else than its comments or its purpose say, a lemma shows it: the colour of a light
  without red, the lock state 0, the toggle of a config switch, the repeated migration, the renumbering at a restart (against COMMANDS.md),
  the routing of sub-device commands, and a device renamed to nothing.

  \<^bold>\<open>Termination and bounds.\<close> No definition uses fuel. \<open>decode_loop\<close> and \<open>ready_loop\<close> are partial functions, so
  that returning is proved, not assumed; all other loops are total functions. Wire integers are words of their width;
  \<^verbatim>\<open>int\<close> arithmetic of the decoder wraps at 32 bits; endpoint numbers are cast to 8 bits where the code casts them, and
  the discovery properties state the room they need (fewer than 256 numbers). Arrays longer than \<^verbatim>\<open>INT_MAX\<close> do not occur.

  \<^bold>\<open>Parameters.\<close> Code that is not in the repository is an argument: noise-c (\<open>noise_api\<close>), Qt's text, case and number
  conversions and \<^verbatim>\<open>mqttSafe\<close> (\<open>env\<close>), the virtual methods of homed-common's exposes (\<open>expose_api\<close>), its configuration
  and topics (\<open>config\<close>), JSON parsing (\<open>json_api\<close>). Properties that need a law of one state it as a hypothesis, with a
  witness on a concrete instance (\<open>toy_api\<close>, \<open>ascii_env\<close>, \<open>example_service\<close>). The socket is a list of calls and a sequence
  of events. A closing call may emit \<^verbatim>\<open>disconnected\<close> before it returns or later; both are covered.

  \<^bold>\<open>Not modelled.\<close> Log output, memory release, signal wiring as such, the JSON text format (values are modelled), file
  system errors beyond not being able to open the file, characters outside the 8-bit range, meta-enum keys
  qualified with their class, the base class \<^verbatim>\<open>HOMEd\<close>, and the build and packaging files.
\<close>

section \<open>Properties across the components\<close>

text \<open>
  C7: A state on the wire becomes a message on the broker. When a whole frame arrives on a connection that
  is up, decrypts to a state message and names the key of an endpoint, the receive slot returns, the
  cipher moves on and nothing else in the connection changes, the endpoint's device publishes its
  states - each finished value in its endpoint - and nothing else is sent.
\<close>

theorem state_reaches_broker:
  fixes conn :: "('h, 'c) EspHomeDevice"
  assumes conn: "m_rxBuf conn = []" "link_up (m_state conn)" "m_noise conn = Some n" "m_complete n"
    and frame: "length x < 2 ^ 16" "decrypt api x n = (n', message_inner (msg_id t) payload)" "length payload < 2 ^ 16"
    and message: "is_state_message t" "decode payload = Some fs" "read_state (s_env S) t fs = (key, st)" "key \<noteq> 0"
    and target: "findEndpointByKey (s_env S) conn (w_devices W) key = Some (r, i)"
      "map_of (d_endpoints (wdev W r)) i = Some ep" "r < length (objs (w_devices W))" "w_mqtt W"
  shows "\<exists>W' ep'. onReadyRead S api (frame_of x) (conn, W) = Some (conn\<lparr>m_noise := Some n'\<rparr>, W') \<and>
    w_out W' = w_out W @ state_messages S (deviceTopic S W r) (wdev W' r) \<and>
    map_of (d_endpoints (wdev W' r)) i = Some ep' \<and>
    (let new = finish_state S t ep (state_defaults t st) in
       map_of (ep_state ep') k = (if qm_contains new k then map_of new k else map_of (ep_state ep) k))"
proof -
  let ?new = "finish_state S t ep (state_defaults t st)" and ?conn = "conn\<lparr>m_noise := Some n'\<rparr>"
  let ?V = "updated_world r i ?new W"
  let ?W' = "sends (state_messages S (deviceTopic S ?V r) (wdev ?V r)) ?V"
  have sorted: "qm_sorted ?new"
    using qm_sorted_read_state [of "s_env S" t fs] message(3) by (simp add: qm_sorted_state_defaults qm_sorted_finish_state)
  have "findEndpointByKey (s_env S) ?conn (w_devices W) key = Some (r, i)"
    using target(1) by (simp add: findEndpointByKey_def knownSubDevices_def)
  then have "apply_state S t fs ?conn W = ?W'"
    using apply_state_published [OF message(3,4) _ target(2,4)] by (simp add: Let_def)
  then have "onReadyRead S api (frame_of x) (conn, W) = Some (?conn, ?W')"
    using state_message_handled [OF message(1,2), of S api ?conn W] conn(1) by (intro frame_handled [OF conn frame]) simp_all
  moreover have "map_of (d_endpoints (wdev ?W' r)) i = Some (set_states ?new ep)"
    using target(2,3) by (simp add: sends_def updated_world_def on_dev_def wdev_def update_endpoint_def)
  moreover have "wdev ?V r = wdev ?W' r" "w_out ?V = w_out W"
    by (simp_all add: sends_def wdev_def updated_world_def on_dev_def)
  ultimately show ?thesis
    using map_of_set_states [OF sorted, of ep k] updated_topic [OF target(3)]
    by (intro exI [of _ ?W'] exI [of _ "set_states ?new ep"]) (simp add: Let_def sends_def)
qed

lemma state_reaches_broker_witness:
  "\<exists>W' ep'. onReadyRead example_service toy_api
      (frame_of (message_inner (msg_id StateLight) (emit_all [AddFixed32 1 77, AddVarint 2 1]) @ [0]))
      (lamp_conn, example_world) = Some (lamp_conn\<lparr>m_noise := Some (ready_noise\<lparr>m_recvCipher := Some 1\<rparr>)\<rparr>, W') \<and>
    map_of (d_endpoints (wdev W' 0)) 3 = Some ep' \<and> map_of (ep_state ep') ''status'' = Some (VStr ''on'')"
proof -
  let ?p = "emit_all [AddFixed32 1 77, AddVarint 2 1]"
  let ?x = "message_inner (msg_id StateLight) ?p @ [0]"
  let ?st = "[(''status'', VStr ''on'')]"
  have frame: "length ?x < 2 ^ 16" "length ?p < 2 ^ 16"
    using lamp_lengths by (simp_all add: message_inner_def be16_def)
  have up: "link_up (m_state lamp_conn)" and state: "is_state_message StateLight"
    by (simp_all add: lamp_conn_simps link_up_def is_state_message_def)
  have read: "read_state (s_env example_service) StateLight lamp_fields = (77, ?st)"
    and found: "findEndpointByKey (s_env example_service) lamp_conn (w_devices example_world) 77 = Some (0, 3)"
    using lamp_read lamp_found lamp_conn_simps(4) by simp_all
  have allocated: "0 < length (objs (w_devices example_world))" using lamp_world(2) by simp
  obtain W' ep' where run: "onReadyRead example_service toy_api (frame_of ?x) (lamp_conn, example_world) =
        Some (lamp_conn\<lparr>m_noise := Some (ready_noise\<lparr>m_recvCipher := Some 1\<rparr>)\<rparr>, W')"
      "map_of (d_endpoints (wdev W' 0)) 3 = Some ep'"
    and new: "let new = finish_state example_service StateLight lamp (state_defaults StateLight ?st) in
       map_of (ep_state ep') ''status'' = (if qm_contains new ''status'' then map_of new ''status'' else map_of (ep_state lamp) ''status'')"
    using state_reaches_broker [where k = "''status''", OF lamp_conn_simps(1) up lamp_conn_simps(3,6) frame(1) ready_ciphers(2) frame(2) state
        lamp_payload read _ found lamp_endpoint allocated lamp_device(4)] by auto
  have "map_of (ep_state ep') ''status'' = Some (VStr ''on'')"
    using new lamp_reported by (simp add: Let_def qm_contains_def)
  with run show ?thesis by blast
qed

text \<open>
  C6: An MQTT command becomes a frame the device understands. When the topic names a main device whose
  connection has subscribed, and the message's one member is addressed to an endpoint of it, exactly one frame
  is written to that connection; a peer whose cipher inverts ours cuts it off the stream, and reads a message
  of the entity's command type whose first field is the entity's key.
\<close>

theorem command_reaches_device:
  fixes conn :: "('h, 'c) EspHomeDevice"
  assumes topic: "split_on (CHR ''/'') rest = name # slot" "find_device (w_devices W) name = Some r"
      "d_parentAddress (wdev W r) = []"
    and message: "ja_parse J m = [(k, j)]" "ja_toVariant J j \<noteq> VInvalid" "addressed S (wdev W r) slot k i"
      "map_of (d_endpoints (wdev W r)) i = Some ep"
    and conn: "map_of (m_connections M) (d_host (wdev W r)) = Some conn" "m_state conn = Subscribe"
      "m_noise conn = Some n" "m_complete n"
    and command: "command_message S ep k (ja_toVariant J j) = Some (t, payload)" "length payload < 2 ^ 16"
    and frame: "encrypt api (message_inner (msg_id t) payload) n = (n', x)" "length x < 2 ^ 16"
    and peer: "snd (decrypt api x p) = message_inner (msg_id t) payload"
  shows "mqttReceived S api J m (device_topic S rest) (M, W) =
      Some (M\<lparr>m_connections := qm_insert (d_host (wdev W r))
        (conn\<lparr>m_noise := Some n', m_socket := m_socket conn @ [Write (frame_of x)]\<rparr>) (m_connections M)\<rparr>, W) \<and>
    next_frame (frame_of x) = Item x [] \<and> parse_inner (snd (decrypt api x p)) = (msg_id t, payload) \<and>
    command_type (m_str S ep ''type'') = Some t \<and>
    (let key = v_toUInt (vm (ep_meta ep) ''key'') in
     \<exists>fs. decode payload = Some (mkField 1 5 (ucast key) key [] # fs))"
proof -
  have "device_received S api J rest [(k, j)] (M, W) = manager_sendCommand S api r i k (ja_toVariant J j) (M, W)"
    using topic message(2,3) by (intro device_received_one) simp_all
  moreover have "length payload < 2 ^ 31" using command(2) by simp
  ultimately show ?thesis
    using main_command_sent [OF topic(3) conn message(4) command(1) frame(1)] device_message_routed [of S api J m rest "(M, W)"]
      message(1) single_frame [OF frame(2)] peer parse_inner_message [OF command(2)] command_decodes [OF command(1)]
    by (auto simp: Let_def)
qed

lemma command_reaches_device_witness:
  "\<exists>M. mqttReceived example_service toy_api lamp_json [] (device_topic example_service ''lamp/3'')
      (\<lparr>m_connections = [(''10.0.0.7'', lamp_conn)]\<rparr>, example_world) = Some (M, example_world) \<and>
    map_of (m_connections M) ''10.0.0.7'' = Some (lamp_conn\<lparr>m_noise := Some (ready_noise\<lparr>m_sendCipher := Some 1\<rparr>),
      m_socket := [Write (frame_of (message_inner (msg_id LightCommand) (emit_all lamp_on) @ [0]))]\<rparr>)"
proof -
  let ?M = "\<lparr>m_connections = [(''10.0.0.7'', lamp_conn)]\<rparr>" and ?inner = "message_inner (msg_id LightCommand) (emit_all lamp_on)"
  have topic: "split_on (CHR ''/'') ''lamp/3'' = ''lamp'' # [''3'']" by simp
  have number: "qs_toUInt ''3'' = Some (unat (3 :: quint8))"
    by (simp add: qs_toUInt_def trimmed_def is_space_def digits_opt_def is_digit_def digits_value_def)
  have parse: "ja_parse lamp_json [] = [(''status'', JString ''on'')]"
    and valid: "ja_toVariant lamp_json (JString ''on'') \<noteq> VInvalid"
    and command: "command_message example_service lamp ''status'' (ja_toVariant lamp_json (JString ''on'')) =
      Some (LightCommand, emit_all lamp_on)"
    by (simp_all add: lamp_json_def lamp_command)
  have to: "addressed example_service (wdev example_world 0) [''3''] ''status'' 3"
    using number by (simp add: addressed_def)
  have conn: "map_of (m_connections ?M) (d_host (wdev example_world 0)) = Some lamp_conn"
    by (simp add: lamp_device)
  have small: "length (emit_all lamp_on) < 2 ^ 16" "length (?inner @ [0]) < 2 ^ 16"
    by (simp_all add: lamp_on_simps message_inner_def be16_def)
  have peer: "snd (decrypt toy_api (?inner @ [0]) ready_noise) = ?inner"
    by (simp add: ready_ciphers)
  have "mqttReceived example_service toy_api lamp_json [] (device_topic example_service ''lamp/3'') (?M, example_world) =
      Some (?M\<lparr>m_connections := qm_insert (d_host (wdev example_world 0))
        (lamp_conn\<lparr>m_noise := Some (ready_noise\<lparr>m_sendCipher := Some 1\<rparr>),
           m_socket := m_socket lamp_conn @ [Write (frame_of (?inner @ [0]))]\<rparr>) (m_connections ?M)\<rparr>, example_world)"
    using command_reaches_device [OF topic lamp_device(3,2) parse valid to lamp_endpoint conn lamp_conn_simps(2,3,6)
        command small(1) ready_ciphers(1) small(2) peer] by (rule conjunct1)
  then show ?thesis by (simp add: lamp_conn_simps(5) lamp_device(1))
qed

end
